theory Spec2Isabelle
  imports
    Main
    "HOL-Library.Char_ord"
    "HOL-Library.List_Lexorder"
    "HOL-Library.Multiset"
begin

section \<open>The manifest bundling engine of src/compiler/bundle/bundle.ts\<close>

subsection \<open>Data model\<close>

text \<open>
  Modelled from the spec: the enum \<open>ENCAPSULATION\<close> of util/constants, whose declaration
  is not part of the sources at hand. The spec gives it as the closed enumeration None,
  Scoped, Shadow; the members keep the names bundle.ts uses for them.
\<close>

datatype ENCAPSULATION = NoEncapsulation | ShadowDom | ScopedCss

text \<open>
  Modelled from the spec: the interfaces \<open>ComponentMeta\<close>, \<open>ModuleFile\<close>, \<open>Bundle\<close>,
  \<open>ManifestBundle\<close>, \<open>Manifest\<close>, \<open>BuildContext\<close> and \<open>Diagnostic\<close> of
  util/interfaces, whose declarations are not part of the sources at hand. Only the
  fields bundle.ts reads or writes are kept. As in the spec's data model, every module
  record carries a tag name, one member of the enumeration, and styles that are present
  or absent: \<open>stylesMeta\<close> is only tested for presence (\<open>!cmpMeta.stylesMeta\<close>), and
  \<open>Some []\<close> is the empty object, which JavaScript takes as present. A bundle
  declaration may lack its \<open>components\<close> (the code tests \<open>b.components\<close> first).
\<close>

type_synonym StylesMeta = "(string \<times> string) list"

record ComponentMeta =
  tagNameMeta :: string
  encapsulation :: ENCAPSULATION
  stylesMeta :: "StylesMeta option"

record ModuleFile =
  cmpMeta :: ComponentMeta

record Bundle =
  components :: "string list option"

record ManifestBundle =
  moduleFiles :: "ModuleFile list"
  compiledModuleText :: string

datatype DiagnosticLevel = Info | Warn | Err

record Diagnostic =
  level :: DiagnosticLevel
  messageText :: string

record Manifest =
  modulesFiles :: "ModuleFile list"
  bundles :: "Bundle list"

record BuildContext =
  diagnostics :: "Diagnostic list"
  manifest :: Manifest
  manifestBundles :: "ManifestBundle list"

text \<open>What the code can throw: reading a property of \<open>undefined\<close>, or a collaborator failing.\<close>

datatype exn = TypeError | Thrown string

subsection \<open>Array.prototype.sort\<close>

text \<open>
  \<open>Array.prototype.sort\<close> with a comparator, as a stable insertion sort: the element
  \<open>x\<close> goes before the first element \<open>y\<close> of the sorted rest with \<open>cmp x y \<le> 0\<close>, so
  elements the comparator calls equal keep their order (ECMAScript 2019 requires a
  stable sort; engines before it sorted arrays of up to ten elements by insertion).
\<close>

fun insertBy :: "('a \<Rightarrow> 'a \<Rightarrow> int) \<Rightarrow> 'a \<Rightarrow> 'a list \<Rightarrow> 'a list" where
  "insertBy cmp x [] = [x]"
| "insertBy cmp x (y # ys) = (if cmp x y \<le> 0 then x # y # ys else y # insertBy cmp x ys)"

fun arraySort :: "('a \<Rightarrow> 'a \<Rightarrow> int) \<Rightarrow> 'a list \<Rightarrow> 'a list" where
  "arraySort cmp [] = []"
| "arraySort cmp (x # xs) = insertBy cmp x (arraySort cmp xs)"

text \<open>
  The same sort with a comparator that can throw: the first exception ends the sort.
  An array of fewer than two elements is returned without any call of the comparator.
\<close>

fun insertByM :: "('a \<Rightarrow> 'a \<Rightarrow> exn + int) \<Rightarrow> 'a \<Rightarrow> 'a list \<Rightarrow> exn + 'a list" where
  "insertByM cmp x [] = Inr [x]"
| "insertByM cmp x (y # ys) =
     (case cmp x y of
        Inl e \<Rightarrow> Inl e
      | Inr c \<Rightarrow>
          if c \<le> 0 then Inr (x # y # ys)
          else (case insertByM cmp x ys of Inl e \<Rightarrow> Inl e | Inr r \<Rightarrow> Inr (y # r)))"

fun arraySortM :: "('a \<Rightarrow> 'a \<Rightarrow> exn + int) \<Rightarrow> 'a list \<Rightarrow> exn + 'a list" where
  "arraySortM cmp [] = Inr []"
| "arraySortM cmp (x # xs) =
     (case arraySortM cmp xs of Inl e \<Rightarrow> Inl e | Inr r \<Rightarrow> insertByM cmp x r)"

subsection \<open>findPrimaryEncapsulation\<close>

text \<open>
  The three \<open>filter\<close> predicates, then the sort of the three buckets; the result is
  \<open>None\<close> where the code returns \<open>null\<close>.
\<close>

definition isPlainCss :: "ModuleFile \<Rightarrow> bool" where
  "isPlainCss m \<longleftrightarrow>
     encapsulation (cmpMeta m) \<noteq> ScopedCss \<and> encapsulation (cmpMeta m) \<noteq> ShadowDom"

definition isScopedCss :: "ModuleFile \<Rightarrow> bool" where
  "isScopedCss m \<longleftrightarrow> encapsulation (cmpMeta m) = ScopedCss"

definition isShadowCss :: "ModuleFile \<Rightarrow> bool" where
  "isShadowCss m \<longleftrightarrow> encapsulation (cmpMeta m) = ShadowDom"

text \<open>The comparator of the bucket sort: the longer bucket first.\<close>

definition compareLength :: "'a list \<Rightarrow> 'a list \<Rightarrow> int" where
  "compareLength a b =
     (if length a < length b then 1 else if length a > length b then -1 else 0)"

definition findPrimaryEncapsulation :: "ModuleFile list \<Rightarrow> ENCAPSULATION option" where
  "findPrimaryEncapsulation ms =
     (let plainCssCmps = filter isPlainCss ms;
          scopedCssCmps = filter isScopedCss ms;
          shadowCssCmps = filter isShadowCss ms;
          sortedCmps = arraySort compareLength [plainCssCmps, scopedCssCmps, shadowCssCmps]
      in case sortedCmps of
           (m # _) # _ \<Rightarrow> Some (encapsulation (cmpMeta m))
         | _ \<Rightarrow> None)"

subsection \<open>validateManifestBundle and validateBundleModules\<close>

definition createManifestBundle :: "ModuleFile list \<Rightarrow> ManifestBundle" where
  "createManifestBundle ms = \<lparr>moduleFiles = ms, compiledModuleText = ''''\<rparr>"

text \<open>
  The four arrays the walk over the modules fills: \<open>primaryCss\<close>, \<open>scopedCss\<close>,
  \<open>shadowCss\<close>, \<open>plainCss\<close>.
\<close>

record Groups =
  primaryCss :: "ModuleFile list"
  scopedCss :: "ModuleFile list"
  shadowCss :: "ModuleFile list"
  plainCss :: "ModuleFile list"

text \<open>One step of the \<open>forEach\<close> over the modules of a bundle.\<close>

definition pickOut :: "ENCAPSULATION option \<Rightarrow> Groups \<Rightarrow> ModuleFile \<Rightarrow> Groups" where
  "pickOut primaryEncapsulation g moduleFile =
     (if Some (encapsulation (cmpMeta moduleFile)) = primaryEncapsulation
         \<or> stylesMeta (cmpMeta moduleFile) = None
      then g\<lparr>primaryCss := primaryCss g @ [moduleFile]\<rparr>
      else if encapsulation (cmpMeta moduleFile) = ScopedCss
      then g\<lparr>scopedCss := scopedCss g @ [moduleFile]\<rparr>
      else if encapsulation (cmpMeta moduleFile) = ShadowDom
      then g\<lparr>shadowCss := shadowCss g @ [moduleFile]\<rparr>
      else g\<lparr>plainCss := plainCss g @ [moduleFile]\<rparr>)"

definition pushIf :: "ModuleFile list \<Rightarrow> ManifestBundle \<Rightarrow> ManifestBundle list \<Rightarrow> ManifestBundle list" where
  "pushIf ms b validatedBundles = (if ms \<noteq> [] then validatedBundles @ [b] else validatedBundles)"

definition validateManifestBundle :: "ManifestBundle list \<Rightarrow> ManifestBundle \<Rightarrow> ManifestBundle list" where
  "validateManifestBundle validatedBundles manifestBundle =
     (if length (moduleFiles manifestBundle) = 0 then validatedBundles
      else if length (moduleFiles manifestBundle) = 1 then validatedBundles @ [manifestBundle]
      else
        let primaryEncapsulation = findPrimaryEncapsulation (moduleFiles manifestBundle);
            g = foldl (pickOut primaryEncapsulation)
                  \<lparr>primaryCss = [], scopedCss = [], shadowCss = [], plainCss = []\<rparr>
                  (moduleFiles manifestBundle);
            v1 = pushIf (primaryCss g) (manifestBundle\<lparr>moduleFiles := primaryCss g\<rparr>) validatedBundles;
            v2 = pushIf (scopedCss g) (createManifestBundle (scopedCss g)) v1;
            v3 = pushIf (shadowCss g) (createManifestBundle (shadowCss g)) v2
        in pushIf (plainCss g) (createManifestBundle (plainCss g)) v3)"

definition validateBundleModules :: "ManifestBundle list \<Rightarrow> ManifestBundle list" where
  "validateBundleModules bs = foldl validateManifestBundle [] bs"

subsection \<open>getManifestBundles\<close>

text \<open>
  Modelled from the spec: \<open>buildError\<close> of compiler/util, which is not part of the sources
  at hand. It adds a new diagnostic of level \<open>error\<close> to the sink and returns it;
  \<open>buildError\<close> here is that new diagnostic, whose \<open>messageText\<close> bundle.ts then sets.
\<close>

definition buildError :: Diagnostic where
  "buildError = \<lparr>level = Err, messageText = ''''\<rparr>"

text \<open>The message of the template literal in \<open>getManifestBundles\<close>.\<close>

definition missingTagMessage :: "string \<Rightarrow> string" where
  "missingTagMessage tag =
     ''Component tag '' @ [CHR 0x22] @ tag @ [CHR 0x22]
       @ '' is defined in a bundle but no matching component was found within this app or its collections.''"

text \<open>
  The inner \<open>forEach\<close> over the tags of one declaration: the state is the bundle being
  filled and the diagnostics. \<open>find\<close> is \<open>Array.prototype.find\<close>, the first match.
\<close>

definition resolveTag ::
  "ModuleFile list \<Rightarrow> ManifestBundle \<times> Diagnostic list \<Rightarrow> string \<Rightarrow> ManifestBundle \<times> Diagnostic list" where
  "resolveTag mods st tag =
     (case find (\<lambda>modulesFile. tagNameMeta (cmpMeta modulesFile) = tag) mods of
        Some m \<Rightarrow> ((fst st)\<lparr>moduleFiles := moduleFiles (fst st) @ [m]\<rparr>, snd st)
      | None \<Rightarrow> (fst st, snd st @ [buildError\<lparr>messageText := missingTagMessage tag\<rparr>]))"

text \<open>
  The body of the outer \<open>forEach\<close>: one declaration. After the \<open>filter\<close> its
  \<open>components\<close> are present; a declaration without them would leave the state as it is.
\<close>

definition resolveBundle ::
  "ModuleFile list \<Rightarrow> ManifestBundle list \<times> Diagnostic list \<Rightarrow> Bundle
     \<Rightarrow> ManifestBundle list \<times> Diagnostic list" where
  "resolveBundle mods st b =
     (case components b of
        None \<Rightarrow> st
      | Some tags \<Rightarrow>
          let r = foldl (resolveTag mods) (createManifestBundle [], snd st) tags
          in (if length (moduleFiles (fst r)) > 0 then fst st @ [fst r] else fst st, snd r))"

definition hasComponents :: "Bundle \<Rightarrow> bool" where
  "hasComponents b = (case components b of None \<Rightarrow> False | Some tags \<Rightarrow> length tags \<noteq> 0)"

text \<open>The result is the array returned and the diagnostics sink as the call leaves it.\<close>

definition getManifestBundles ::
  "ModuleFile list \<Rightarrow> Bundle list \<Rightarrow> Diagnostic list \<Rightarrow> ManifestBundle list \<times> Diagnostic list" where
  "getManifestBundles mods bs ds = foldl (resolveBundle mods) ([], ds) (filter hasComponents bs)"

subsection \<open>sortBundles\<close>

definition compareTagName :: "ModuleFile \<Rightarrow> ModuleFile \<Rightarrow> int" where
  "compareTagName a b =
     (if tagNameMeta (cmpMeta a) < tagNameMeta (cmpMeta b) then -1
      else if tagNameMeta (cmpMeta a) > tagNameMeta (cmpMeta b) then 1
      else 0)"

definition sortModuleFiles :: "ManifestBundle \<Rightarrow> ManifestBundle" where
  "sortModuleFiles m = m\<lparr>moduleFiles := arraySort compareTagName (moduleFiles m)\<rparr>"

text \<open>
  The comparator of the bundles reads \<open>moduleFiles[0].cmpMeta\<close> of both: on a bundle with
  no modules that is a property of \<open>undefined\<close>, a TypeError.
\<close>

definition compareFirstTagName :: "ManifestBundle \<Rightarrow> ManifestBundle \<Rightarrow> exn + int" where
  "compareFirstTagName a b =
     (case (moduleFiles a, moduleFiles b) of
        (x # _, y # _) \<Rightarrow> Inr (compareTagName x y)
      | _ \<Rightarrow> Inl TypeError)"

definition sortBundles :: "ManifestBundle list \<Rightarrow> exn + ManifestBundle list" where
  "sortBundles bs = arraySortM compareFirstTagName (map sortModuleFiles bs)"

subsection \<open>bundle\<close>

text \<open>
  Modelled from the spec: \<open>hasError\<close> and \<open>catchError\<close> of compiler/util, which are not
  part of the sources at hand. The spec has the orchestrator check for a prior fatal
  (error) diagnostic at entry, and has an exception converted into an error diagnostic.
\<close>

definition hasError :: "Diagnostic list \<Rightarrow> bool" where
  "hasError ds = list_ex (\<lambda>d. level d = Err) ds"

definition exnText :: "exn \<Rightarrow> string" where
  "exnText e = (case e of TypeError \<Rightarrow> ''TypeError'' | Thrown s \<Rightarrow> s)"

definition catchError :: "Diagnostic list \<Rightarrow> exn \<Rightarrow> Diagnostic list" where
  "catchError ds e = ds @ [\<lparr>level = Err, messageText = exnText e\<rparr>]"

text \<open>
  The collaborators awaited inside the \<open>try\<close> block are not part of the sources at hand
  and are parameters: each takes the build context and leaves it changed, with the
  exception it raised, if any. \<open>bundleStylesAndModules\<close> stands for the
  \<open>Promise.all\<close> of \<open>bundleStyles\<close> and \<open>bundleModules\<close>. The logger calls are left out.
\<close>

record Collaborators =
  upgradeDependentComponents :: "BuildContext \<Rightarrow> exn option \<times> BuildContext"
  bundleStylesAndModules :: "BuildContext \<Rightarrow> exn option \<times> BuildContext"
  generateBundles :: "BuildContext \<Rightarrow> exn option \<times> BuildContext"

text \<open>
  The \<open>try\<close> block: the context as the block leaves it, with the exception that ended
  it, if any. Were \<open>sortBundles\<close> to throw, the block would end with the validated bundles
  in the context (what the sort in place had moved by then is not recorded); the bundles
  it is given here all have a module, so it returns, as is shown below.
\<close>

definition bundleSteps :: "Collaborators \<Rightarrow> BuildContext \<Rightarrow> exn option \<times> BuildContext" where
  "bundleSteps col ctx =
     (let r = getManifestBundles (modulesFiles (manifest ctx)) (bundles (manifest ctx)) (diagnostics ctx);
          ctx1 = ctx\<lparr>manifestBundles := fst r, diagnostics := snd r\<rparr>;
          ctx2 = ctx1\<lparr>manifestBundles := validateBundleModules (manifestBundles ctx1)\<rparr>
      in case sortBundles (manifestBundles ctx2) of
           Inl e \<Rightarrow> (Some e, ctx2)
         | Inr sortedBundles \<Rightarrow>
             (case upgradeDependentComponents col (ctx2\<lparr>manifestBundles := sortedBundles\<rparr>) of
                (Some e, ctx3) \<Rightarrow> (Some e, ctx3)
              | (None, ctx3) \<Rightarrow>
                  (case bundleStylesAndModules col ctx3 of
                     (Some e, ctx4) \<Rightarrow> (Some e, ctx4)
                   | (None, ctx4) \<Rightarrow> generateBundles col ctx4)))"

text \<open>
  The function \<open>bundle\<close> (named \<open>bundle_fn\<close>, \<open>bundle\<close> being a keyword of Isabelle).
  The first component of the result is the exception that leaves it (the rejection of
  the promise it returns), the second the build context afterwards.
\<close>

definition bundle_fn :: "Collaborators \<Rightarrow> BuildContext \<Rightarrow> exn option \<times> BuildContext" where
  "bundle_fn col ctx =
     (if hasError (diagnostics ctx) then (None, ctx)
      else
        case bundleSteps col ctx of
          (None, ctx') \<Rightarrow> (None, ctx')
        | (Some e, ctx') \<Rightarrow> (None, ctx'\<lparr>diagnostics := catchError (diagnostics ctx') e\<rparr>))"

subsection \<open>The groups of the validator, as the spec words them\<close>

text \<open>
  The spec describes the walk of \<open>validateManifestBundle\<close> by its outcome: the primary
  group holds the modules whose mode is the primary one or that declare no styles; each
  overflow group holds the remaining modules of one mode; a group is emitted as a new
  bundle when it is not empty. These definitions follow the spec's words and are compared
  with the code below.
\<close>

definition inPrimaryGroup :: "ENCAPSULATION option \<Rightarrow> ModuleFile \<Rightarrow> bool" where
  "inPrimaryGroup p m \<longleftrightarrow> Some (encapsulation (cmpMeta m)) = p \<or> stylesMeta (cmpMeta m) = None"

definition primaryGroup :: "ENCAPSULATION option \<Rightarrow> ModuleFile list \<Rightarrow> ModuleFile list" where
  "primaryGroup p ms = filter (inPrimaryGroup p) ms"

definition overflowGroup :: "ENCAPSULATION option \<Rightarrow> ENCAPSULATION \<Rightarrow> ModuleFile list \<Rightarrow> ModuleFile list" where
  "overflowGroup p e ms = filter (\<lambda>m. \<not> inPrimaryGroup p m \<and> encapsulation (cmpMeta m) = e) ms"

definition emitGroup :: "ModuleFile list \<Rightarrow> ManifestBundle list" where
  "emitGroup ms = (if ms = [] then [] else [createManifestBundle ms])"

text \<open>
  The invariant of an emitted bundle: it has a module, and any two of its modules that
  declare styles have the same encapsulation mode.
\<close>

definition consistentBundle :: "ManifestBundle \<Rightarrow> bool" where
  "consistentBundle b \<longleftrightarrow>
     moduleFiles b \<noteq> [] \<and>
     (\<forall>m1\<in>set (moduleFiles b). \<forall>m2\<in>set (moduleFiles b).
        stylesMeta (cmpMeta m1) \<noteq> None \<and> stylesMeta (cmpMeta m2) \<noteq> None
          \<longrightarrow> encapsulation (cmpMeta m1) = encapsulation (cmpMeta m2))"

subsection \<open>Notions used in the statements\<close>

text \<open>
  The sort keys: the tag name of a module, and the tag name of the first module of a
  bundle. For a bundle without modules the key is the empty string, which never takes
  part in a comparison: the comparator throws on such a bundle. The membership of a
  bundle is what a sort must keep: its modules whatever their order, and its text.

  The resolver in the spec's words: \<open>findModule\<close> is the lookup of a tag among the
  modules, \<open>declaredTags\<close> the tags of a declaration (none when it has no
  \<open>components\<close>), \<open>resolvedModules\<close> the modules found for the tags of a declaration
  in declaration order, \<open>matchingTags\<close> and \<open>missingTags\<close> the tags with and without a
  module, \<open>missingTagDiagnostic\<close> the diagnostic of a missing tag, and \<open>emitResolved\<close>
  the bundle of a declaration that resolves to at least one module. A declaration
  \<open>declares\<close> a tag that is among its tags, and a bundle \<open>holdsTag\<close> a tag that is the tag
  name of one of its modules. These definitions are compared with the code below.
\<close>

definition tagName :: "ModuleFile \<Rightarrow> string" where
  "tagName m = tagNameMeta (cmpMeta m)"

definition firstTagName :: "ManifestBundle \<Rightarrow> string" where
  "firstTagName b = (case moduleFiles b of [] \<Rightarrow> [] | m # _ \<Rightarrow> tagName m)"

definition membership :: "ManifestBundle \<Rightarrow> ModuleFile multiset \<times> string" where
  "membership b = (mset (moduleFiles b), compiledModuleText b)"

definition findModule :: "ModuleFile list \<Rightarrow> string \<Rightarrow> ModuleFile option" where
  "findModule mods tag = find (\<lambda>modulesFile. tagNameMeta (cmpMeta modulesFile) = tag) mods"

definition declaredTags :: "Bundle \<Rightarrow> string list" where
  "declaredTags b = (case components b of None \<Rightarrow> [] | Some tags \<Rightarrow> tags)"

fun resolvedModules :: "ModuleFile list \<Rightarrow> string list \<Rightarrow> ModuleFile list" where
  "resolvedModules mods [] = []"
| "resolvedModules mods (tag # tags) =
     (case findModule mods tag of
        None \<Rightarrow> resolvedModules mods tags
      | Some m \<Rightarrow> m # resolvedModules mods tags)"

definition matchingTags :: "ModuleFile list \<Rightarrow> string list \<Rightarrow> string list" where
  "matchingTags mods tags = filter (\<lambda>tag. findModule mods tag \<noteq> None) tags"

definition missingTags :: "ModuleFile list \<Rightarrow> string list \<Rightarrow> string list" where
  "missingTags mods tags = filter (\<lambda>tag. findModule mods tag = None) tags"

definition missingTagDiagnostic :: "string \<Rightarrow> Diagnostic" where
  "missingTagDiagnostic tag = \<lparr>level = Err, messageText = missingTagMessage tag\<rparr>"

definition emitResolved :: "ModuleFile list \<Rightarrow> ManifestBundle list" where
  "emitResolved ms = (if ms = [] then [] else [createManifestBundle ms])"

definition declares :: "string \<Rightarrow> Bundle \<Rightarrow> bool" where
  "declares tag b \<longleftrightarrow> tag \<in> set (declaredTags b)"

definition holdsTag :: "string \<Rightarrow> ManifestBundle \<Rightarrow> bool" where
  "holdsTag tag b \<longleftrightarrow> tag \<in> set (map tagName (moduleFiles b))"

subsection \<open>Example records\<close>

text \<open>
  Concrete records for the examples: a module from its three fields, a build context with
  one module and one declaration, and collaborators of which the style and module
  bundling throws.
\<close>

definition moduleOf :: "string \<Rightarrow> ENCAPSULATION \<Rightarrow> StylesMeta option \<Rightarrow> ModuleFile" where
  "moduleOf t e s = \<lparr>cmpMeta = \<lparr>tagNameMeta = t, encapsulation = e, stylesMeta = s\<rparr>\<rparr>"

definition exampleContext :: "Diagnostic list \<Rightarrow> BuildContext" where
  "exampleContext ds =
     \<lparr>diagnostics = ds,
      manifest = \<lparr>modulesFiles = [moduleOf ''a'' ScopedCss None],
                  bundles = [\<lparr>components = Some [''a'']\<rparr>]\<rparr>,
      manifestBundles = []\<rparr>"

definition failingCollaborators :: Collaborators where
  "failingCollaborators =
     \<lparr>upgradeDependentComponents = (\<lambda>c. (None, c)),
      bundleStylesAndModules = (\<lambda>c. (Some (Thrown ''boom''), c)),
      generateBundles = (\<lambda>c. (None, c))\<rparr>"

section \<open>Properties\<close>

subsection \<open>The classifier\<close>

lemma bucket_total: "length (filter isPlainCss ms) + length (filter isScopedCss ms) + length (filter isShadowCss ms) = length ms"
  by (induction ms) (auto simp: isPlainCss_def isScopedCss_def isShadowCss_def)

lemma hd_filter_holds: "filter P ms \<noteq> [] \<Longrightarrow> P (hd (filter P ms))"
  using hd_in_set [of "filter P ms"] by simp

lemma arraySort_compareLength3:
  "arraySort compareLength [a, b, c] =
     (if length b \<le> length a \<and> length c \<le> length a then
        (if length c \<le> length b then [a, b, c] else [a, c, b])
      else if length a < length b \<and> length c \<le> length b then
        (if length c \<le> length a then [b, a, c] else [b, c, a])
      else (if length b \<le> length a then [c, a, b] else [c, b, a]))"
  by (auto simp: compareLength_def)

lemma case_hd: "xs \<noteq> [] \<Longrightarrow> (case xs of [] \<Rightarrow> d | m # _ \<Rightarrow> f m) = f (hd xs)"
  by (cases xs) auto

lemma isPlainCss_iff: "isPlainCss m \<longleftrightarrow> encapsulation (cmpMeta m) = NoEncapsulation"
  by (cases "encapsulation (cmpMeta m)") (simp_all add: isPlainCss_def)

lemma findPrimary_plain:
  assumes "ms \<noteq> []"
    and "length (filter isScopedCss ms) \<le> length (filter isPlainCss ms)"
    and "length (filter isShadowCss ms) \<le> length (filter isPlainCss ms)"
  shows "findPrimaryEncapsulation ms = Some NoEncapsulation"
    and "filter isPlainCss ms \<noteq> []"
proof -
  show ne: "filter isPlainCss ms \<noteq> []"
    using assms bucket_total [of ms] by (cases ms) auto
  have "isPlainCss (hd (filter isPlainCss ms))" by (rule hd_filter_holds [OF ne])
  then have e: "encapsulation (cmpMeta (hd (filter isPlainCss ms))) = NoEncapsulation"
    by (simp add: isPlainCss_iff)
  show "findPrimaryEncapsulation ms = Some NoEncapsulation"
    unfolding findPrimaryEncapsulation_def Let_def arraySort_compareLength3
    using assms(2,3) ne e by (simp add: case_hd)
qed

lemma findPrimary_scoped:
  assumes "length (filter isPlainCss ms) < length (filter isScopedCss ms)"
    and "length (filter isShadowCss ms) \<le> length (filter isScopedCss ms)"
  shows "findPrimaryEncapsulation ms = Some ScopedCss"
proof -
  have ne: "filter isScopedCss ms \<noteq> []" using assms(1) by auto
  have "isScopedCss (hd (filter isScopedCss ms))" by (rule hd_filter_holds [OF ne])
  then have e: "encapsulation (cmpMeta (hd (filter isScopedCss ms))) = ScopedCss"
    by (simp add: isScopedCss_def)
  show ?thesis
    unfolding findPrimaryEncapsulation_def Let_def arraySort_compareLength3
    using assms ne e by (simp add: case_hd)
qed

lemma findPrimary_shadow:
  assumes "length (filter isPlainCss ms) < length (filter isShadowCss ms)"
    and "length (filter isScopedCss ms) < length (filter isShadowCss ms)"
  shows "findPrimaryEncapsulation ms = Some ShadowDom"
proof -
  have ne: "filter isShadowCss ms \<noteq> []" using assms(1) by auto
  have "isShadowCss (hd (filter isShadowCss ms))" by (rule hd_filter_holds [OF ne])
  then have e: "encapsulation (cmpMeta (hd (filter isShadowCss ms))) = ShadowDom"
    by (simp add: isShadowCss_def)
  show ?thesis
    unfolding findPrimaryEncapsulation_def Let_def arraySort_compareLength3
    using assms ne e by (simp add: case_hd)
qed

lemma findPrimary_Nil: "findPrimaryEncapsulation [] = None"
  by (simp add: findPrimaryEncapsulation_def compareLength_def)

lemma filter_nonempty_mem: "filter P ms \<noteq> [] \<Longrightarrow> \<exists>m\<in>set ms. P m"
  by (induction ms) (auto split: if_splits)

lemma findPrimary_some:
  assumes "ms \<noteq> []"
  shows "\<exists>m\<in>set ms. findPrimaryEncapsulation ms = Some (encapsulation (cmpMeta m))"
proof -
  let ?p = "length (filter isPlainCss ms)"
  let ?s = "length (filter isScopedCss ms)"
  let ?h = "length (filter isShadowCss ms)"
  consider (plain) "?s \<le> ?p" "?h \<le> ?p" | (scoped) "?p < ?s" "?h \<le> ?s" | (shadow) "?p < ?h" "?s < ?h"
    by linarith
  then show ?thesis
  proof cases
    case plain
    from findPrimary_plain [OF assms plain] obtain m where "m \<in> set ms" "isPlainCss m"
      using filter_nonempty_mem by blast
    with findPrimary_plain(1) [OF assms plain] show ?thesis
      by (auto simp: isPlainCss_iff intro!: bexI [of _ m])
  next
    case scoped
    then have "filter isScopedCss ms \<noteq> []" by auto
    then obtain m where "m \<in> set ms" "isScopedCss m" using filter_nonempty_mem by blast
    with findPrimary_scoped [OF scoped] show ?thesis
      by (auto simp: isScopedCss_def intro!: bexI [of _ m])
  next
    case shadow
    then have "filter isShadowCss ms \<noteq> []" by auto
    then obtain m where "m \<in> set ms" "isShadowCss m" using filter_nonempty_mem by blast
    with findPrimary_shadow [OF shadow] show ?thesis
      by (auto simp: isShadowCss_def intro!: bexI [of _ m])
  qed
qed

text \<open>
  Claim C3. On the empty list \<open>findPrimaryEncapsulation\<close> returns \<open>null\<close>. On a non-empty
  list it returns the mode of the bucket with the largest count, which is then not empty;
  the plain bucket wins every tie it takes part in, and the scoped bucket wins a tie with
  the shadow bucket: the order of preference among equal counts is None, Scoped, Shadow.
\<close>

theorem findPrimaryEncapsulation_majority:
  "findPrimaryEncapsulation [] = None \<and>
   (ms \<noteq> [] \<longrightarrow>
     (let p = length (filter isPlainCss ms);
          s = length (filter isScopedCss ms);
          h = length (filter isShadowCss ms)
      in findPrimaryEncapsulation ms =
           (if s \<le> p \<and> h \<le> p then Some NoEncapsulation
            else if h \<le> s then Some ScopedCss
            else Some ShadowDom)))"
proof (intro conjI impI)
  show "findPrimaryEncapsulation [] = None" by (rule findPrimary_Nil)
next
  assume ne: "ms \<noteq> []"
  let ?p = "length (filter isPlainCss ms)"
  let ?s = "length (filter isScopedCss ms)"
  let ?h = "length (filter isShadowCss ms)"
  consider (plain) "?s \<le> ?p" "?h \<le> ?p" | (scoped) "?p < ?s" "?h \<le> ?s" | (shadow) "?p < ?h" "?s < ?h"
    by linarith
  then show "let p = ?p; s = ?s; h = ?h
      in findPrimaryEncapsulation ms =
           (if s \<le> p \<and> h \<le> p then Some NoEncapsulation
            else if h \<le> s then Some ScopedCss
            else Some ShadowDom)"
  proof cases
    case plain
    then show ?thesis using findPrimary_plain(1) [OF ne plain] by simp
  next
    case scoped
    then show ?thesis using findPrimary_scoped [OF scoped] by (simp add: Let_def)
  next
    case shadow
    then show ?thesis using findPrimary_shadow [OF shadow] by (simp add: Let_def)
  qed
qed

theorem findPrimaryEncapsulation_majority_witness:
  "findPrimaryEncapsulation
     [\<lparr>cmpMeta = \<lparr>tagNameMeta = ''a'', encapsulation = ShadowDom, stylesMeta = Some []\<rparr>\<rparr>,
      \<lparr>cmpMeta = \<lparr>tagNameMeta = ''b'', encapsulation = ScopedCss, stylesMeta = Some []\<rparr>\<rparr>]
   = Some ScopedCss"
  using findPrimaryEncapsulation_majority
    [of "[\<lparr>cmpMeta = \<lparr>tagNameMeta = ''a'', encapsulation = ShadowDom, stylesMeta = Some []\<rparr>\<rparr>,
          \<lparr>cmpMeta = \<lparr>tagNameMeta = ''b'', encapsulation = ScopedCss, stylesMeta = Some []\<rparr>\<rparr>]"]
  by (simp add: isPlainCss_def isScopedCss_def isShadowCss_def)

subsection \<open>The validator\<close>

lemma pickOut_sel:
  "primaryCss (pickOut p g m) = primaryCss g @ primaryGroup p [m]"
  "scopedCss (pickOut p g m) = scopedCss g @ overflowGroup p ScopedCss [m]"
  "shadowCss (pickOut p g m) = shadowCss g @ overflowGroup p ShadowDom [m]"
  "plainCss (pickOut p g m) = plainCss g @ overflowGroup p NoEncapsulation [m]"
  by (cases "encapsulation (cmpMeta m)";
      simp add: pickOut_def primaryGroup_def overflowGroup_def inPrimaryGroup_def)+

lemma foldl_pickOut:
  "foldl (pickOut p) g ms =
     \<lparr>primaryCss = primaryCss g @ primaryGroup p ms,
      scopedCss = scopedCss g @ overflowGroup p ScopedCss ms,
      shadowCss = shadowCss g @ overflowGroup p ShadowDom ms,
      plainCss = plainCss g @ overflowGroup p NoEncapsulation ms\<rparr>"
proof (induction ms arbitrary: g)
  case Nil
  show ?case by (simp add: primaryGroup_def overflowGroup_def)
next
  case (Cons m ms)
  have "foldl (pickOut p) g (m # ms) = foldl (pickOut p) (pickOut p g m) ms" by simp
  also have "\<dots> = \<lparr>primaryCss = primaryCss g @ primaryGroup p (m # ms),
      scopedCss = scopedCss g @ overflowGroup p ScopedCss (m # ms),
      shadowCss = shadowCss g @ overflowGroup p ShadowDom (m # ms),
      plainCss = plainCss g @ overflowGroup p NoEncapsulation (m # ms)\<rparr>"
    unfolding Cons.IH pickOut_sel by (simp add: primaryGroup_def overflowGroup_def)
  finally show ?case .
qed

lemma primaryGroup_nonempty:
  assumes "ms \<noteq> []"
  shows "primaryGroup (findPrimaryEncapsulation ms) ms \<noteq> []"
proof -
  obtain m where "m \<in> set ms" "findPrimaryEncapsulation ms = Some (encapsulation (cmpMeta m))"
    using findPrimary_some [OF assms] by blast
  then have "m \<in> set (primaryGroup (findPrimaryEncapsulation ms) ms)"
    by (simp add: primaryGroup_def inPrimaryGroup_def)
  then show ?thesis by auto
qed

lemma validateManifestBundle_many:
  assumes "2 \<le> length (moduleFiles b)"
  shows "validateManifestBundle acc b =
           acc @ [b\<lparr>moduleFiles := primaryGroup (findPrimaryEncapsulation (moduleFiles b)) (moduleFiles b)\<rparr>]
             @ emitGroup (overflowGroup (findPrimaryEncapsulation (moduleFiles b)) ScopedCss (moduleFiles b))
             @ emitGroup (overflowGroup (findPrimaryEncapsulation (moduleFiles b)) ShadowDom (moduleFiles b))
             @ emitGroup (overflowGroup (findPrimaryEncapsulation (moduleFiles b)) NoEncapsulation (moduleFiles b))"
proof -
  have ne: "moduleFiles b \<noteq> []" using assms by auto
  show ?thesis
    using assms ne primaryGroup_nonempty [OF ne]
    by (simp add: validateManifestBundle_def Let_def foldl_pickOut pushIf_def emitGroup_def)
qed

lemma consistentBundleI:
  assumes "moduleFiles b \<noteq> []"
    and "\<And>m1 m2. m1 \<in> set (moduleFiles b) \<Longrightarrow> m2 \<in> set (moduleFiles b)
           \<Longrightarrow> stylesMeta (cmpMeta m1) \<noteq> None \<Longrightarrow> stylesMeta (cmpMeta m2) \<noteq> None
           \<Longrightarrow> encapsulation (cmpMeta m1) = encapsulation (cmpMeta m2)"
  shows "consistentBundle b"
  unfolding consistentBundle_def using assms by blast

lemma validateManifestBundle_empty:
  "moduleFiles b = [] \<Longrightarrow> validateManifestBundle acc b = acc"
  by (simp add: validateManifestBundle_def)

lemma validateManifestBundle_single:
  "length (moduleFiles b) = 1 \<Longrightarrow> validateManifestBundle acc b = acc @ [b]"
  by (simp add: validateManifestBundle_def)

lemma validateManifestBundle_append:
  "validateManifestBundle acc b = acc @ validateManifestBundle [] b"
proof -
  consider "moduleFiles b = []" | "length (moduleFiles b) = 1" | "2 \<le> length (moduleFiles b)"
    by (cases "moduleFiles b") (auto simp: Suc_le_eq)
  then show ?thesis
  proof cases
    case 1 then show ?thesis by (simp add: validateManifestBundle_empty)
  next
    case 2 then show ?thesis by (simp add: validateManifestBundle_single)
  next
    case 3 then show ?thesis by (simp add: validateManifestBundle_many)
  qed
qed

lemma foldl_validateManifestBundle:
  "foldl validateManifestBundle acc bs = acc @ concat (map (validateManifestBundle []) bs)"
proof (induction bs arbitrary: acc)
  case Nil show ?case by simp
next
  case (Cons b bs)
  show ?case
    by (simp add: Cons.IH [of "validateManifestBundle acc b"])
       (simp add: validateManifestBundle_append [of acc b])
qed

lemma validateBundleModules_concat:
  "validateBundleModules bs = concat (map (validateManifestBundle []) bs)"
  by (simp add: validateBundleModules_def foldl_validateManifestBundle)

lemma primaryGroup_consistent:
  assumes "m1 \<in> set (primaryGroup p ms)" "m2 \<in> set (primaryGroup p ms)"
    and "stylesMeta (cmpMeta m1) \<noteq> None" "stylesMeta (cmpMeta m2) \<noteq> None"
  shows "encapsulation (cmpMeta m1) = encapsulation (cmpMeta m2)"
  using assms by (auto simp: primaryGroup_def inPrimaryGroup_def)

lemma overflowGroup_consistent:
  assumes "m1 \<in> set (overflowGroup p e ms)" "m2 \<in> set (overflowGroup p e ms)"
  shows "encapsulation (cmpMeta m1) = encapsulation (cmpMeta m2)"
  using assms by (auto simp: overflowGroup_def)

lemma emitGroup_consistent:
  assumes "b \<in> set (emitGroup (overflowGroup p e ms))"
  shows "consistentBundle b"
proof -
  from assms have b: "b = createManifestBundle (overflowGroup p e ms)" and ne: "overflowGroup p e ms \<noteq> []"
    by (auto simp: emitGroup_def split: if_splits)
  have mf: "moduleFiles b = overflowGroup p e ms"
    by (simp add: b createManifestBundle_def)
  show ?thesis
  proof (rule consistentBundleI)
    show "moduleFiles b \<noteq> []" using ne mf by simp
  next
    fix m1 m2
    assume "m1 \<in> set (moduleFiles b)" "m2 \<in> set (moduleFiles b)"
    then show "encapsulation (cmpMeta m1) = encapsulation (cmpMeta m2)"
      unfolding mf by (rule overflowGroup_consistent)
  qed
qed

lemma validateManifestBundle_consistent:
  assumes "b \<in> set (validateManifestBundle [] b0)"
  shows "consistentBundle b"
proof -
  consider "moduleFiles b0 = []" | "length (moduleFiles b0) = 1" | "2 \<le> length (moduleFiles b0)"
    by (cases "moduleFiles b0") (auto simp: Suc_le_eq)
  then show ?thesis
  proof cases
    case 1
    with assms show ?thesis by (simp add: validateManifestBundle_empty)
  next
    case 2
    with assms have "b = b0" by (simp add: validateManifestBundle_single)
    moreover from 2 obtain m where "moduleFiles b0 = [m]"
      by (cases "moduleFiles b0") auto
    ultimately show ?thesis by (simp add: consistentBundle_def)
  next
    case 3
    let ?p = "findPrimaryEncapsulation (moduleFiles b0)"
    from 3 have ne: "moduleFiles b0 \<noteq> []" by auto
    from assms have "b \<in> set ([b0\<lparr>moduleFiles := primaryGroup ?p (moduleFiles b0)\<rparr>]
             @ emitGroup (overflowGroup ?p ScopedCss (moduleFiles b0))
             @ emitGroup (overflowGroup ?p ShadowDom (moduleFiles b0))
             @ emitGroup (overflowGroup ?p NoEncapsulation (moduleFiles b0)))"
      by (simp only: validateManifestBundle_many [OF 3] append_Nil)
    then consider
        (primary) "b = b0\<lparr>moduleFiles := primaryGroup ?p (moduleFiles b0)\<rparr>"
      | (overflow) e where "b \<in> set (emitGroup (overflowGroup ?p e (moduleFiles b0)))"
      unfolding set_append by auto
    then show ?thesis
    proof cases
      case primary
      have mf: "moduleFiles b = primaryGroup ?p (moduleFiles b0)"
        by (simp add: primary)
      show ?thesis
      proof (rule consistentBundleI)
        show "moduleFiles b \<noteq> []" using primaryGroup_nonempty [OF ne] mf by simp
      next
        fix m1 m2
        assume "m1 \<in> set (moduleFiles b)" "m2 \<in> set (moduleFiles b)"
          and "stylesMeta (cmpMeta m1) \<noteq> None" "stylesMeta (cmpMeta m2) \<noteq> None"
        then show "encapsulation (cmpMeta m1) = encapsulation (cmpMeta m2)"
          unfolding mf by (rule primaryGroup_consistent)
      qed
    next
      case overflow
      then show ?thesis by (rule emitGroup_consistent)
    qed
  qed
qed

text \<open>
  Claim C4. A bundle with no modules adds nothing to the validated bundles; a bundle with
  exactly one module is added as it is. A bundle with two or more modules adds, first, the
  original bundle (its text placeholder kept) holding the primary group, which is never
  empty; then, for each of the modes scoped, shadow, plain in that order, a new bundle
  holding the overflow group of that mode when the group is not empty. Every module whose
  mode is the primary one, and every module without styles, is in the primary group; a
  module without styles is in no overflow group.
\<close>

theorem validateManifestBundle_groups:
  "(moduleFiles b = [] \<longrightarrow> validateManifestBundle acc b = acc) \<and>
   (length (moduleFiles b) = 1 \<longrightarrow> validateManifestBundle acc b = acc @ [b]) \<and>
   (2 \<le> length (moduleFiles b) \<longrightarrow>
      (let ms = moduleFiles b; p = findPrimaryEncapsulation ms
       in validateManifestBundle acc b =
            acc @ [b\<lparr>moduleFiles := primaryGroup p ms\<rparr>]
              @ emitGroup (overflowGroup p ScopedCss ms)
              @ emitGroup (overflowGroup p ShadowDom ms)
              @ emitGroup (overflowGroup p NoEncapsulation ms)
          \<and> primaryGroup p ms \<noteq> []
          \<and> (\<forall>m\<in>set ms.
                (Some (encapsulation (cmpMeta m)) = p \<or> stylesMeta (cmpMeta m) = None
                   \<longrightarrow> m \<in> set (primaryGroup p ms))
              \<and> (stylesMeta (cmpMeta m) = None \<longrightarrow> (\<forall>e. m \<notin> set (overflowGroup p e ms))))))"
proof (intro conjI impI)
  assume "moduleFiles b = []"
  then show "validateManifestBundle acc b = acc" by (rule validateManifestBundle_empty)
next
  assume "length (moduleFiles b) = 1"
  then show "validateManifestBundle acc b = acc @ [b]" by (rule validateManifestBundle_single)
next
  assume many: "2 \<le> length (moduleFiles b)"
  then have ne: "moduleFiles b \<noteq> []" by auto
  show "let ms = moduleFiles b; p = findPrimaryEncapsulation ms
       in validateManifestBundle acc b =
            acc @ [b\<lparr>moduleFiles := primaryGroup p ms\<rparr>]
              @ emitGroup (overflowGroup p ScopedCss ms)
              @ emitGroup (overflowGroup p ShadowDom ms)
              @ emitGroup (overflowGroup p NoEncapsulation ms)
          \<and> primaryGroup p ms \<noteq> []
          \<and> (\<forall>m\<in>set ms.
                (Some (encapsulation (cmpMeta m)) = p \<or> stylesMeta (cmpMeta m) = None
                   \<longrightarrow> m \<in> set (primaryGroup p ms))
              \<and> (stylesMeta (cmpMeta m) = None \<longrightarrow> (\<forall>e. m \<notin> set (overflowGroup p e ms))))"
    unfolding Let_def
  proof (intro conjI ballI impI allI)
    show "validateManifestBundle acc b =
            acc @ [b\<lparr>moduleFiles := primaryGroup (findPrimaryEncapsulation (moduleFiles b)) (moduleFiles b)\<rparr>]
              @ emitGroup (overflowGroup (findPrimaryEncapsulation (moduleFiles b)) ScopedCss (moduleFiles b))
              @ emitGroup (overflowGroup (findPrimaryEncapsulation (moduleFiles b)) ShadowDom (moduleFiles b))
              @ emitGroup (overflowGroup (findPrimaryEncapsulation (moduleFiles b)) NoEncapsulation (moduleFiles b))"
      by (rule validateManifestBundle_many [OF many])
  next
    show "primaryGroup (findPrimaryEncapsulation (moduleFiles b)) (moduleFiles b) \<noteq> []"
      by (rule primaryGroup_nonempty [OF ne])
  next
    fix m
    assume "m \<in> set (moduleFiles b)"
      and "Some (encapsulation (cmpMeta m)) = findPrimaryEncapsulation (moduleFiles b)
             \<or> stylesMeta (cmpMeta m) = None"
    then show "m \<in> set (primaryGroup (findPrimaryEncapsulation (moduleFiles b)) (moduleFiles b))"
      by (simp add: primaryGroup_def inPrimaryGroup_def)
  next
    fix m e
    assume "m \<in> set (moduleFiles b)" and "stylesMeta (cmpMeta m) = None"
    then show "m \<notin> set (overflowGroup (findPrimaryEncapsulation (moduleFiles b)) e (moduleFiles b))"
      by (simp add: overflowGroup_def inPrimaryGroup_def)
  qed
qed

theorem validateManifestBundle_groups_witness:
  "validateManifestBundle [] \<lparr>moduleFiles = [], compiledModuleText = ''x''\<rparr> = []
   \<and> validateManifestBundle []
       \<lparr>moduleFiles = [moduleOf ''a-btn'' ShadowDom (Some [])], compiledModuleText = ''x''\<rparr>
     = [\<lparr>moduleFiles = [moduleOf ''a-btn'' ShadowDom (Some [])], compiledModuleText = ''x''\<rparr>]
   \<and> validateManifestBundle []
       \<lparr>moduleFiles =
          [moduleOf ''a-btn'' ShadowDom (Some []), moduleOf ''a-card'' ScopedCss (Some []),
           moduleOf ''a-icon'' NoEncapsulation None],
        compiledModuleText = ''x''\<rparr>
     = [\<lparr>moduleFiles = [moduleOf ''a-icon'' NoEncapsulation None], compiledModuleText = ''x''\<rparr>,
        \<lparr>moduleFiles = [moduleOf ''a-card'' ScopedCss (Some [])], compiledModuleText = ''''\<rparr>,
        \<lparr>moduleFiles = [moduleOf ''a-btn'' ShadowDom (Some [])], compiledModuleText = ''''\<rparr>]"
  using
    validateManifestBundle_groups
      [of "\<lparr>moduleFiles = [], compiledModuleText = ''x''\<rparr>" "[]"]
    validateManifestBundle_groups
      [of "\<lparr>moduleFiles = [moduleOf ''a-btn'' ShadowDom (Some [])], compiledModuleText = ''x''\<rparr>"
          "[]"]
    validateManifestBundle_groups
      [of "\<lparr>moduleFiles =
          [moduleOf ''a-btn'' ShadowDom (Some []), moduleOf ''a-card'' ScopedCss (Some []),
           moduleOf ''a-icon'' NoEncapsulation None],
        compiledModuleText = ''x''\<rparr>" "[]"]
  by (simp add: Let_def findPrimaryEncapsulation_def compareLength_def isPlainCss_def
      isScopedCss_def isShadowCss_def primaryGroup_def overflowGroup_def inPrimaryGroup_def
      emitGroup_def createManifestBundle_def moduleOf_def)

text \<open>
  Claim C1. Every bundle that \<open>validateBundleModules\<close> emits has at least one module, and
  any two of its modules that declare styles have equal encapsulation modes. The same
  holds of every bundle that one call of \<open>validateManifestBundle\<close> adds to the validated
  bundles it was given.
\<close>

theorem validateBundleModules_consistent:
  "(b \<in> set (validateBundleModules bs) \<longrightarrow> consistentBundle b) \<and>
   (b \<in> set (validateManifestBundle acc b0) \<longrightarrow> b \<in> set acc \<or> consistentBundle b)"
proof (intro conjI impI)
  assume "b \<in> set (validateBundleModules bs)"
  then obtain b1 where "b \<in> set (validateManifestBundle [] b1)"
    unfolding validateBundleModules_concat by auto
  then show "consistentBundle b" by (rule validateManifestBundle_consistent)
next
  assume "b \<in> set (validateManifestBundle acc b0)"
  then have "b \<in> set (acc @ validateManifestBundle [] b0)"
    by (simp only: validateManifestBundle_append [of acc b0])
  then show "b \<in> set acc \<or> consistentBundle b"
    using validateManifestBundle_consistent [of b b0] by auto
qed

theorem validateBundleModules_consistent_witness:
  "\<lparr>moduleFiles =
      [moduleOf ''a'' ScopedCss (Some []), moduleOf ''b'' ScopedCss (Some []),
       moduleOf ''c'' ShadowDom None],
     compiledModuleText = ''''\<rparr>
     \<in> set (validateBundleModules
         [\<lparr>moduleFiles =
            [moduleOf ''a'' ScopedCss (Some []), moduleOf ''b'' ScopedCss (Some []),
             moduleOf ''c'' ShadowDom None, moduleOf ''d'' ShadowDom (Some [])],
           compiledModuleText = ''''\<rparr>])
   \<and> consistentBundle
       \<lparr>moduleFiles =
          [moduleOf ''a'' ScopedCss (Some []), moduleOf ''b'' ScopedCss (Some []),
           moduleOf ''c'' ShadowDom None],
        compiledModuleText = ''''\<rparr>"
proof -
  have mem: "\<lparr>moduleFiles =
      [moduleOf ''a'' ScopedCss (Some []), moduleOf ''b'' ScopedCss (Some []),
       moduleOf ''c'' ShadowDom None],
     compiledModuleText = ''''\<rparr>
     \<in> set (validateBundleModules
         [\<lparr>moduleFiles =
            [moduleOf ''a'' ScopedCss (Some []), moduleOf ''b'' ScopedCss (Some []),
             moduleOf ''c'' ShadowDom None, moduleOf ''d'' ShadowDom (Some [])],
           compiledModuleText = ''''\<rparr>])"
    by (simp add: validateBundleModules_def validateManifestBundle_def Let_def
        findPrimaryEncapsulation_def compareLength_def isPlainCss_def isScopedCss_def
        isShadowCss_def pickOut_def pushIf_def createManifestBundle_def moduleOf_def)
  from validateBundleModules_consistent mem show ?thesis by blast
qed

lemma group_Cons:
  "primaryGroup p (m # ms) = primaryGroup p [m] @ primaryGroup p ms"
  "overflowGroup p e (m # ms) = overflowGroup p e [m] @ overflowGroup p e ms"
  by (simp_all add: primaryGroup_def overflowGroup_def)

lemma groups_partition_single:
  "mset (primaryGroup p [m]) + mset (overflowGroup p ScopedCss [m])
     + mset (overflowGroup p ShadowDom [m]) + mset (overflowGroup p NoEncapsulation [m]) = {#m#}"
  by (cases "encapsulation (cmpMeta m)") (simp_all add: primaryGroup_def overflowGroup_def)

lemma groups_partition:
  "mset (primaryGroup p ms) + mset (overflowGroup p ScopedCss ms)
     + mset (overflowGroup p ShadowDom ms) + mset (overflowGroup p NoEncapsulation ms) = mset ms"
proof (induction ms)
  case Nil show ?case by (simp add: primaryGroup_def overflowGroup_def)
next
  case (Cons m ms)
  have "mset (primaryGroup p (m # ms)) + mset (overflowGroup p ScopedCss (m # ms))
     + mset (overflowGroup p ShadowDom (m # ms)) + mset (overflowGroup p NoEncapsulation (m # ms))
    = (mset (primaryGroup p [m]) + mset (overflowGroup p ScopedCss [m])
     + mset (overflowGroup p ShadowDom [m]) + mset (overflowGroup p NoEncapsulation [m]))
    + (mset (primaryGroup p ms) + mset (overflowGroup p ScopedCss ms)
     + mset (overflowGroup p ShadowDom ms) + mset (overflowGroup p NoEncapsulation ms))"
    unfolding group_Cons(2) [of p _ m ms] group_Cons(1) [of p m ms] mset_append
    by (simp only: ac_simps)
  also have "\<dots> = {#m#} + mset ms"
    by (simp only: groups_partition_single Cons.IH)
  finally show ?case by simp
qed

lemma emitGroup_modules: "concat (map moduleFiles (emitGroup ms)) = ms"
  by (simp add: emitGroup_def createManifestBundle_def)

lemma validateManifestBundle_modules:
  "mset (concat (map moduleFiles (validateManifestBundle [] b))) = mset (moduleFiles b)"
proof -
  consider "moduleFiles b = []" | "length (moduleFiles b) = 1" | "2 \<le> length (moduleFiles b)"
    by (cases "moduleFiles b") (auto simp: Suc_le_eq)
  then show ?thesis
  proof cases
    case 1 then show ?thesis by (simp add: validateManifestBundle_empty)
  next
    case 2 then show ?thesis by (simp add: validateManifestBundle_single)
  next
    case 3
    show ?thesis
      using groups_partition [of "findPrimaryEncapsulation (moduleFiles b)" "moduleFiles b"]
      by (simp add: validateManifestBundle_many [OF 3] emitGroup_modules ac_simps)
  qed
qed

lemma validateBundleModules_mset:
  "mset (concat (map moduleFiles (validateBundleModules bs))) = mset (concat (map moduleFiles bs))"
proof (induction bs)
  case Nil show ?case by (simp add: validateBundleModules_concat)
next
  case (Cons b bs)
  then show ?case
    by (simp add: validateBundleModules_concat validateManifestBundle_modules)
qed

lemma length_concat_moduleFiles:
  "length (concat (map moduleFiles bs)) = sum_list (map (\<lambda>b. length (moduleFiles b)) bs)"
  by (induction bs) auto

text \<open>
  Claim C2. The bundles that \<open>validateBundleModules\<close> emits hold, taken together, as many
  modules as the bundles it was given, and the same modules with the same multiplicities:
  the split drops no module and duplicates none.
\<close>

theorem validateBundleModules_conservation:
  "sum_list (map (\<lambda>b. length (moduleFiles b)) (validateBundleModules bs))
     = sum_list (map (\<lambda>b. length (moduleFiles b)) bs)
   \<and> mset (concat (map moduleFiles (validateBundleModules bs))) = mset (concat (map moduleFiles bs))"
proof -
  have m: "mset (concat (map moduleFiles (validateBundleModules bs))) = mset (concat (map moduleFiles bs))"
    by (rule validateBundleModules_mset)
  then have "size (mset (concat (map moduleFiles (validateBundleModules bs)))) = size (mset (concat (map moduleFiles bs)))"
    by simp
  then have "length (concat (map moduleFiles (validateBundleModules bs))) = length (concat (map moduleFiles bs))"
    by (simp only: size_mset)
  with m show ?thesis by (simp only: length_concat_moduleFiles) 
qed

subsection \<open>The sorter\<close>

lemma insertBy_insort_key:
  assumes "\<And>y. y \<in> set ys \<Longrightarrow> (cmp x y \<le> 0) = (f x \<le> f y)"
  shows "insertBy cmp x ys = insort_key f x ys"
  using assms by (induction ys) auto

lemma arraySort_sort_key:
  assumes "\<And>x y. (cmp x y \<le> 0) = (f x \<le> f y)"
  shows "arraySort cmp xs = sort_key f xs"
  by (induction xs) (simp_all add: insertBy_insort_key assms)

lemma compareTagName_le: "(compareTagName a b \<le> 0) = (tagName a \<le> tagName b)"
  by (auto simp: compareTagName_def tagName_def)

lemma arraySort_compareTagName: "arraySort compareTagName ms = sort_key tagName ms"
  by (rule arraySort_sort_key) (rule compareTagName_le)

lemma moduleFiles_sortModuleFiles:
  "moduleFiles (sortModuleFiles b) = sort_key tagName (moduleFiles b)"
  by (simp add: sortModuleFiles_def arraySort_compareTagName)

lemma compareFirstTagName_Inr:
  assumes "compareFirstTagName a b = Inr c"
  shows "moduleFiles a \<noteq> []" "moduleFiles b \<noteq> []" "(c \<le> 0) = (firstTagName a \<le> firstTagName b)"
  using assms
  by (auto simp: compareFirstTagName_def firstTagName_def compareTagName_le [symmetric]
      split: list.splits)

lemma compareFirstTagName_nonempty:
  assumes "moduleFiles a \<noteq> []" "moduleFiles b \<noteq> []"
  shows "\<exists>c. compareFirstTagName a b = Inr c"
  using assms by (auto simp: compareFirstTagName_def split: list.splits)

lemma insertByM_Inr:
  assumes "insertByM compareFirstTagName x ys = Inr r"
  shows "r = insort_key firstTagName x ys"
  using assms
proof (induction ys arbitrary: r)
  case Nil then show ?case by simp
next
  case (Cons y ys)
  from Cons.prems obtain c where c: "compareFirstTagName x y = Inr c"
    by (cases "compareFirstTagName x y") auto
  note le = compareFirstTagName_Inr(3) [OF c]
  show ?case
  proof (cases "c \<le> 0")
    case True
    with Cons.prems c le show ?thesis by simp
  next
    case False
    with Cons.prems c obtain r' where r': "insertByM compareFirstTagName x ys = Inr r'" "r = y # r'"
      by (cases "insertByM compareFirstTagName x ys") auto
    from Cons.IH [OF r'(1)] r'(2) False le show ?thesis by simp
  qed
qed

lemma arraySortM_Inr:
  assumes "arraySortM compareFirstTagName xs = Inr r"
  shows "r = sort_key firstTagName xs"
  using assms
proof (induction xs arbitrary: r)
  case Nil then show ?case by simp
next
  case (Cons x xs)
  from Cons.prems obtain r' where r': "arraySortM compareFirstTagName xs = Inr r'"
    by (cases "arraySortM compareFirstTagName xs") auto
  with Cons.prems have "insertByM compareFirstTagName x r' = Inr r" by simp
  then have "r = insort_key firstTagName x r'" by (rule insertByM_Inr)
  with Cons.IH [OF r'] show ?case by simp
qed

lemma insertByM_total:
  assumes "moduleFiles x \<noteq> []" "\<forall>y\<in>set ys. moduleFiles y \<noteq> []"
  shows "\<exists>r. insertByM compareFirstTagName x ys = Inr r"
  using assms
proof (induction ys)
  case Nil show ?case by simp
next
  case (Cons y ys)
  then obtain c where c: "compareFirstTagName x y = Inr c"
    using compareFirstTagName_nonempty [of x y] by auto
  from Cons obtain r where "insertByM compareFirstTagName x ys = Inr r" by auto
  with c show ?case by simp
qed

lemma arraySortM_total:
  assumes "\<forall>x\<in>set xs. moduleFiles x \<noteq> []"
  shows "arraySortM compareFirstTagName xs = Inr (sort_key firstTagName xs)"
  using assms
proof (induction xs)
  case Nil show ?case by simp
next
  case (Cons x xs)
  then have IH: "arraySortM compareFirstTagName xs = Inr (sort_key firstTagName xs)" by simp
  from Cons.prems have "\<forall>y\<in>set (sort_key firstTagName xs). moduleFiles y \<noteq> []" by simp
  with Cons.prems obtain r where r: "insertByM compareFirstTagName x (sort_key firstTagName xs) = Inr r"
    using insertByM_total [of x "sort_key firstTagName xs"] by auto
  then have "r = insort_key firstTagName x (sort_key firstTagName xs)" by (rule insertByM_Inr)
  with r IH show ?case by simp
qed

lemma insertByM_nonempty:
  assumes "insertByM compareFirstTagName x (y # ys) = Inr r"
  shows "moduleFiles x \<noteq> []" "moduleFiles y \<noteq> []"
proof -
  from assms obtain c where c: "compareFirstTagName x y = Inr c"
    by (cases "compareFirstTagName x y") auto
  then show "moduleFiles x \<noteq> []" "moduleFiles y \<noteq> []"
    by (rule compareFirstTagName_Inr)+
qed

lemma arraySortM_nonempty:
  assumes "arraySortM compareFirstTagName xs = Inr r" "2 \<le> length xs"
  shows "\<forall>b\<in>set xs. moduleFiles b \<noteq> []"
  using assms
proof (induction xs arbitrary: r)
  case Nil then show ?case by simp
next
  case (Cons x xs)
  from Cons.prems obtain r' where r': "arraySortM compareFirstTagName xs = Inr r'"
    and ins: "insertByM compareFirstTagName x r' = Inr r"
    by (cases "arraySortM compareFirstTagName xs") auto
  have r'_eq: "r' = sort_key firstTagName xs" using r' by (rule arraySortM_Inr)
  from Cons.prems(2) have "xs \<noteq> []" by auto
  then have "r' \<noteq> []" using r'_eq by (metis length_sort list.size(3) length_0_conv)
  then obtain y ys where r'_cons: "r' = y # ys" by (cases r') auto
  from ins have x: "moduleFiles x \<noteq> []" and y: "moduleFiles y \<noteq> []"
    unfolding r'_cons by (rule insertByM_nonempty)+
  have "\<forall>b\<in>set xs. moduleFiles b \<noteq> []"
  proof (cases "2 \<le> length xs")
    case True
    then show ?thesis using Cons.IH [OF r'] by simp
  next
    case False
    with \<open>xs \<noteq> []\<close> obtain z where "xs = [z]"
      by (cases xs) (auto simp: not_le Suc_le_eq)
    with r'_eq r'_cons y show ?thesis by simp
  qed
  with x show ?case by simp
qed

lemma sortBundles_Inr:
  assumes "sortBundles bs = Inr bs'"
  shows "bs' = sort_key firstTagName (map sortModuleFiles bs)"
  using assms unfolding sortBundles_def by (rule arraySortM_Inr)

lemma sortModuleFiles_nonempty: "moduleFiles (sortModuleFiles b) = [] \<longleftrightarrow> moduleFiles b = []"
  by (metis moduleFiles_sortModuleFiles length_sort length_0_conv)

lemma sortBundles_total:
  assumes "\<forall>b\<in>set bs. moduleFiles b \<noteq> []"
  shows "sortBundles bs = Inr (sort_key firstTagName (map sortModuleFiles bs))"
  unfolding sortBundles_def
  by (rule arraySortM_total) (use assms in \<open>simp add: sortModuleFiles_nonempty\<close>)

lemma sortModuleFiles_idem:
  "sortModuleFiles (sortModuleFiles b) = sortModuleFiles b"
proof -
  have "sort_key tagName (sort_key tagName (moduleFiles b)) = sort_key tagName (moduleFiles b)"
    by (rule sort_key_id_if_sorted) simp
  then show ?thesis
    by (simp add: sortModuleFiles_def arraySort_compareTagName)
qed

lemma sortBundles_idem:
  assumes "sortBundles bs = Inr bs'"
  shows "sortBundles bs' = Inr bs'"
proof -
  let ?xs = "map sortModuleFiles bs"
  have bs': "bs' = sort_key firstTagName ?xs" using assms by (rule sortBundles_Inr)
  have "set bs' = set ?xs" using bs' by simp
  then have "\<forall>b\<in>set bs'. sortModuleFiles b = b"
    by (auto simp: sortModuleFiles_idem)
  then have m: "map sortModuleFiles bs' = bs'" by (simp add: map_idI)
  have s: "sort_key firstTagName bs' = bs'"
    unfolding bs' by (rule sort_key_id_if_sorted) simp
  show ?thesis
  proof (cases "2 \<le> length bs")
    case True
    then have "2 \<le> length ?xs" by simp
    with assms have "\<forall>b\<in>set ?xs. moduleFiles b \<noteq> []"
      unfolding sortBundles_def by (rule arraySortM_nonempty)
    then have "\<forall>b\<in>set bs'. moduleFiles b \<noteq> []" using \<open>set bs' = set ?xs\<close> by simp
    then have "arraySortM compareFirstTagName bs' = Inr (sort_key firstTagName bs')"
      by (rule arraySortM_total)
    then show ?thesis by (simp add: sortBundles_def m s)
  next
    case False
    then have "length bs' \<le> 1" using bs' by simp
    then have "bs' = [] \<or> (\<exists>b. bs' = [b])" by (cases bs') auto
    then have "arraySortM compareFirstTagName bs' = Inr bs'" by auto
    then show ?thesis by (simp add: sortBundles_def m)
  qed
qed

lemma membership_sortModuleFiles: "membership (sortModuleFiles b) = membership b"
  by (simp add: membership_def moduleFiles_sortModuleFiles) (simp add: sortModuleFiles_def)

lemma length_sortModuleFiles: "length (moduleFiles (sortModuleFiles b)) = length (moduleFiles b)"
  by (simp add: moduleFiles_sortModuleFiles)

lemma sorted_sortModuleFiles: "sorted (map tagName (moduleFiles (sortModuleFiles b)))"
  by (simp add: moduleFiles_sortModuleFiles)

lemma sum_list_mset_cong:
  fixes f :: "'a \<Rightarrow> nat"
  assumes "mset xs = mset ys"
  shows "sum_list (map f xs) = sum_list (map f ys)"
proof -
  have "sum_list (map f xs) = sum_mset (image_mset f (mset xs))"
    by (metis mset_map sum_mset_sum_list)
  also have "\<dots> = sum_mset (image_mset f (mset ys))" by (simp add: assms)
  also have "\<dots> = sum_list (map f ys)" by (metis mset_map sum_mset_sum_list)
  finally show ?thesis .
qed

text \<open>
  The comparator does throw on a bundle without modules among two bundles, and is not
  called on a single bundle.
\<close>

lemma sortBundles_empty_bundle:
  "sortBundles [createManifestBundle [], createManifestBundle [moduleOf ''a'' ScopedCss None]]
     = Inl TypeError"
  "sortBundles [createManifestBundle []] = Inr [createManifestBundle []]"
  by (simp_all add: sortBundles_def sortModuleFiles_def createManifestBundle_def moduleOf_def
      compareFirstTagName_def)

lemma sortBundles_example:
  "sortBundles
     [createManifestBundle [moduleOf ''z'' ScopedCss None, moduleOf ''y'' ScopedCss None],
      createManifestBundle [moduleOf ''b'' ShadowDom None, moduleOf ''a'' ShadowDom None]]
   = Inr
     [createManifestBundle [moduleOf ''a'' ShadowDom None, moduleOf ''b'' ShadowDom None],
      createManifestBundle [moduleOf ''y'' ScopedCss None, moduleOf ''z'' ScopedCss None]]"
  by (simp add: sortBundles_def sortModuleFiles_def createManifestBundle_def moduleOf_def
      compareFirstTagName_def compareTagName_def)

text \<open>
  Claim C5. When every bundle has a module, \<open>sortBundles\<close> returns. Whenever it returns,
  the modules of each bundle are in ascending order of their tag names, the bundles are in
  ascending order of the tag name of their first module, and nothing is lost: the bundles
  returned are the bundles given, each with the same modules (as a multiset) and the same
  text, their number and the total number of modules unchanged. The order on tag names is
  the lexicographic order on their characters, which is what \<open><\<close> and \<open>>\<close> compute on
  JavaScript strings.
\<close>

theorem sortBundles_ordered:
  "((\<forall>b\<in>set bs. moduleFiles b \<noteq> []) \<longrightarrow> (\<exists>r. sortBundles bs = Inr r)) \<and>
   (sortBundles bs = Inr bs' \<longrightarrow>
      (\<forall>b\<in>set bs'. sorted (map tagName (moduleFiles b))) \<and>
      sorted (map firstTagName bs') \<and>
      (2 \<le> length bs' \<longrightarrow> (\<forall>b\<in>set bs'. moduleFiles b \<noteq> [])) \<and>
      mset (map membership bs') = mset (map membership bs) \<and>
      length bs' = length bs \<and>
      sum_list (map (\<lambda>b. length (moduleFiles b)) bs') = sum_list (map (\<lambda>b. length (moduleFiles b)) bs))"
proof (intro conjI impI)
  assume "\<forall>b\<in>set bs. moduleFiles b \<noteq> []"
  then show "\<exists>r. sortBundles bs = Inr r" using sortBundles_total by blast
next
  assume r: "sortBundles bs = Inr bs'"
  let ?xs = "map sortModuleFiles bs"
  have bs': "bs' = sort_key firstTagName ?xs" using r by (rule sortBundles_Inr)
  have set: "set bs' = sortModuleFiles ` set bs" using bs' by simp
  have ms: "mset bs' = mset ?xs" using bs' by simp
  show "\<forall>b\<in>set bs'. sorted (map tagName (moduleFiles b))"
    unfolding set by (simp add: sorted_sortModuleFiles)
  show "sorted (map firstTagName bs')" unfolding bs' by simp
  show "length bs' = length bs" unfolding bs' by simp
  show "mset (map membership bs') = mset (map membership bs)"
  proof -
    have "mset (map membership bs') = mset (map membership ?xs)"
      by (metis ms mset_map)
    also have "map membership ?xs = map membership bs"
      by (simp add: membership_sortModuleFiles)
    finally show ?thesis .
  qed
  show "sum_list (map (\<lambda>b. length (moduleFiles b)) bs') = sum_list (map (\<lambda>b. length (moduleFiles b)) bs)"
  proof -
    have "sum_list (map (\<lambda>b. length (moduleFiles b)) bs') = sum_list (map (\<lambda>b. length (moduleFiles b)) ?xs)"
      using ms by (rule sum_list_mset_cong)
    also have "\<dots> = sum_list (map (\<lambda>b. length (moduleFiles b)) bs)"
      by (simp add: comp_def length_sortModuleFiles)
    finally show ?thesis .
  qed
  show "\<forall>b\<in>set bs'. moduleFiles b \<noteq> []" if "2 \<le> length bs'"
  proof -
    from that have "2 \<le> length ?xs" unfolding bs' by simp
    with r have "\<forall>b\<in>set ?xs. moduleFiles b \<noteq> []"
      unfolding sortBundles_def by (rule arraySortM_nonempty)
    then show ?thesis unfolding bs' by simp
  qed
qed

theorem sortBundles_ordered_witness:
  "sortBundles
     [createManifestBundle [moduleOf ''z'' ScopedCss None, moduleOf ''y'' ScopedCss None],
      createManifestBundle [moduleOf ''b'' ShadowDom None, moduleOf ''a'' ShadowDom None]]
   = Inr
     [createManifestBundle [moduleOf ''a'' ShadowDom None, moduleOf ''b'' ShadowDom None],
      createManifestBundle [moduleOf ''y'' ScopedCss None, moduleOf ''z'' ScopedCss None]]
   \<and> sorted (map firstTagName
       [createManifestBundle [moduleOf ''a'' ShadowDom None, moduleOf ''b'' ShadowDom None],
        createManifestBundle [moduleOf ''y'' ScopedCss None, moduleOf ''z'' ScopedCss None]])"
  using sortBundles_ordered
    [of "[createManifestBundle [moduleOf ''z'' ScopedCss None, moduleOf ''y'' ScopedCss None],
          createManifestBundle [moduleOf ''b'' ShadowDom None, moduleOf ''a'' ShadowDom None]]"
        "[createManifestBundle [moduleOf ''a'' ShadowDom None, moduleOf ''b'' ShadowDom None],
          createManifestBundle [moduleOf ''y'' ScopedCss None, moduleOf ''z'' ScopedCss None]]"]
    sortBundles_example
  by blast

text \<open>
  Claim C8. Whenever \<open>sortBundles\<close> returns a list, sorting that list again returns it
  unchanged; and it returns whenever every bundle has a module.
\<close>

theorem sortBundles_idempotent:
  "(sortBundles bs = Inr bs' \<longrightarrow> sortBundles bs' = Inr bs') \<and>
   ((\<forall>b\<in>set bs. moduleFiles b \<noteq> []) \<longrightarrow>
      (\<exists>r. sortBundles bs = Inr r \<and> sortBundles r = Inr r))"
proof (intro conjI impI)
  assume "sortBundles bs = Inr bs'"
  then show "sortBundles bs' = Inr bs'" by (rule sortBundles_idem)
next
  assume "\<forall>b\<in>set bs. moduleFiles b \<noteq> []"
  then have "sortBundles bs = Inr (sort_key firstTagName (map sortModuleFiles bs))"
    by (rule sortBundles_total)
  then show "\<exists>r. sortBundles bs = Inr r \<and> sortBundles r = Inr r"
    using sortBundles_idem by blast
qed

theorem sortBundles_idempotent_witness:
  "sortBundles
     [createManifestBundle [moduleOf ''z'' ScopedCss None, moduleOf ''y'' ScopedCss None],
      createManifestBundle [moduleOf ''b'' ShadowDom None, moduleOf ''a'' ShadowDom None]]
   = Inr
     [createManifestBundle [moduleOf ''a'' ShadowDom None, moduleOf ''b'' ShadowDom None],
      createManifestBundle [moduleOf ''y'' ScopedCss None, moduleOf ''z'' ScopedCss None]]
   \<and> sortBundles
     [createManifestBundle [moduleOf ''a'' ShadowDom None, moduleOf ''b'' ShadowDom None],
      createManifestBundle [moduleOf ''y'' ScopedCss None, moduleOf ''z'' ScopedCss None]]
   = Inr
     [createManifestBundle [moduleOf ''a'' ShadowDom None, moduleOf ''b'' ShadowDom None],
      createManifestBundle [moduleOf ''y'' ScopedCss None, moduleOf ''z'' ScopedCss None]]"
  using sortBundles_idempotent
    [of "[createManifestBundle [moduleOf ''z'' ScopedCss None, moduleOf ''y'' ScopedCss None],
          createManifestBundle [moduleOf ''b'' ShadowDom None, moduleOf ''a'' ShadowDom None]]"
        "[createManifestBundle [moduleOf ''a'' ShadowDom None, moduleOf ''b'' ShadowDom None],
          createManifestBundle [moduleOf ''y'' ScopedCss None, moduleOf ''z'' ScopedCss None]]"]
    sortBundles_example
  by blast

subsection \<open>The tag resolver\<close>

lemma resolveTag_found:
  "findModule mods tag = Some m \<Longrightarrow>
     resolveTag mods st tag = ((fst st)\<lparr>moduleFiles := moduleFiles (fst st) @ [m]\<rparr>, snd st)"
  by (simp add: resolveTag_def findModule_def)

lemma resolveTag_missing:
  "findModule mods tag = None \<Longrightarrow>
     resolveTag mods st tag = (fst st, snd st @ [missingTagDiagnostic tag])"
  by (simp add: resolveTag_def findModule_def missingTagDiagnostic_def buildError_def)

lemma foldl_resolveTag:
  "foldl (resolveTag mods) (mb, ds) tags =
     (mb\<lparr>moduleFiles := moduleFiles mb @ resolvedModules mods tags\<rparr>,
      ds @ map missingTagDiagnostic (missingTags mods tags))"
proof (induction tags arbitrary: mb ds)
  case Nil show ?case by (simp add: missingTags_def)
next
  case (Cons tag tags)
  show ?case
  proof (cases "findModule mods tag")
    case None
    have "foldl (resolveTag mods) (mb, ds) (tag # tags)
            = foldl (resolveTag mods) (mb, ds @ [missingTagDiagnostic tag]) tags"
      by (simp add: resolveTag_missing [OF None])
    also have "\<dots> = (mb\<lparr>moduleFiles := moduleFiles mb @ resolvedModules mods tags\<rparr>,
      (ds @ [missingTagDiagnostic tag]) @ map missingTagDiagnostic (missingTags mods tags))"
      by (rule Cons.IH)
    finally show ?thesis using None by (simp add: missingTags_def)
  next
    case (Some m)
    have "foldl (resolveTag mods) (mb, ds) (tag # tags)
            = foldl (resolveTag mods) (mb\<lparr>moduleFiles := moduleFiles mb @ [m]\<rparr>, ds) tags"
      by (simp add: resolveTag_found [OF Some])
    also have "\<dots> = ((mb\<lparr>moduleFiles := moduleFiles mb @ [m]\<rparr>)
        \<lparr>moduleFiles := moduleFiles (mb\<lparr>moduleFiles := moduleFiles mb @ [m]\<rparr>) @ resolvedModules mods tags\<rparr>,
      ds @ map missingTagDiagnostic (missingTags mods tags))"
      by (rule Cons.IH)
    finally show ?thesis using Some by (simp add: missingTags_def)
  qed
qed

lemma resolveBundle_eq:
  "resolveBundle mods (mbs, ds) b =
     (mbs @ emitResolved (resolvedModules mods (declaredTags b)),
      ds @ map missingTagDiagnostic (missingTags mods (declaredTags b)))"
proof (cases "components b")
  case None
  then show ?thesis
    by (simp add: resolveBundle_def declaredTags_def emitResolved_def missingTags_def)
next
  case (Some tags)
  then show ?thesis
    by (simp add: resolveBundle_def declaredTags_def emitResolved_def foldl_resolveTag Let_def
        createManifestBundle_def)
qed

lemma foldl_resolveBundle:
  "foldl (resolveBundle mods) (mbs, ds) bs =
     (mbs @ concat (map (\<lambda>b. emitResolved (resolvedModules mods (declaredTags b))) bs),
      ds @ map missingTagDiagnostic (missingTags mods (concat (map declaredTags bs))))"
proof (induction bs arbitrary: mbs ds)
  case Nil show ?case by (simp add: missingTags_def)
next
  case (Cons b bs)
  show ?case
    unfolding foldl_Cons resolveBundle_eq Cons.IH
    by (simp add: missingTags_def)
qed

lemma declaredTags_no_components: "\<not> hasComponents b \<Longrightarrow> declaredTags b = []"
  by (auto simp: hasComponents_def declaredTags_def split: option.splits)

lemma concat_map_filter_hasComponents:
  assumes "\<And>b. \<not> hasComponents b \<Longrightarrow> f b = []"
  shows "concat (map f (filter hasComponents bs)) = concat (map f bs)"
  using assms by (induction bs) auto

lemma getManifestBundles_eq:
  "getManifestBundles mods bs ds =
     (concat (map (\<lambda>b. emitResolved (resolvedModules mods (declaredTags b))) bs),
      ds @ map missingTagDiagnostic (missingTags mods (concat (map declaredTags bs))))"
proof -
  have 1: "concat (map (\<lambda>b. emitResolved (resolvedModules mods (declaredTags b))) (filter hasComponents bs))
         = concat (map (\<lambda>b. emitResolved (resolvedModules mods (declaredTags b))) bs)"
    by (rule concat_map_filter_hasComponents)
       (simp add: declaredTags_no_components emitResolved_def)
  have 2: "concat (map declaredTags (filter hasComponents bs)) = concat (map declaredTags bs)"
    by (rule concat_map_filter_hasComponents) (rule declaredTags_no_components)
  show ?thesis
    unfolding getManifestBundles_def foldl_resolveBundle 1 2 by simp
qed

lemma moduleFiles_emitResolved:
  "map moduleFiles (concat (map (\<lambda>b. emitResolved (f b)) bs)) = filter (\<lambda>ms. ms \<noteq> []) (map f bs)"
  by (induction bs) (auto simp: emitResolved_def createManifestBundle_def)

lemma findModule_Some:
  "findModule mods tag = Some m \<Longrightarrow> m \<in> set mods \<and> tagNameMeta (cmpMeta m) = tag"
  unfolding findModule_def by (induction mods) (auto split: if_splits)

lemma findModule_None_iff:
  "findModule mods tag = None \<longleftrightarrow> (\<forall>m\<in>set mods. tagNameMeta (cmpMeta m) \<noteq> tag)"
  unfolding findModule_def by (auto simp: find_None_iff)

lemma tagName_resolvedModules:
  "map tagName (resolvedModules mods tags) = matchingTags mods tags"
proof (induction tags)
  case Nil show ?case by (simp add: matchingTags_def)
next
  case (Cons tag tags)
  then show ?case
    by (cases "findModule mods tag")
       (auto simp: matchingTags_def tagName_def dest: findModule_Some)
qed

lemma resolvedModules_mem: "m \<in> set (resolvedModules mods tags) \<Longrightarrow> m \<in> set mods"
  by (induction tags) (auto split: option.splits dest: findModule_Some)

lemma missingTagMessage_inject:
  "missingTagMessage t = missingTagMessage t' \<longleftrightarrow> t = t'"
  by (simp add: missingTagMessage_def)

lemma list_all2_resolvedModules:
  "list_all2 (\<lambda>m tag. findModule mods tag = Some m) (resolvedModules mods tags) (matchingTags mods tags)"
  by (induction tags) (auto simp: matchingTags_def split: option.splits)

lemma length_emitResolved_modules:
  "sum_list (map (\<lambda>b. length (moduleFiles b)) (concat (map (\<lambda>b. emitResolved (resolvedModules mods (declaredTags b))) bs)))
     = length (matchingTags mods (concat (map declaredTags bs)))"
proof (induction bs)
  case Nil show ?case by (simp add: matchingTags_def)
next
  case (Cons b bs)
  have "length (resolvedModules mods (declaredTags b)) = length (matchingTags mods (declaredTags b))"
    by (metis tagName_resolvedModules length_map)
  with Cons show ?case
    by (auto simp: emitResolved_def createManifestBundle_def matchingTags_def)
qed

lemma holdsTag_emitResolved:
  assumes "findModule mods tag \<noteq> None"
  shows "filter (holdsTag tag) (emitResolved (resolvedModules mods tags))
           = (if tag \<in> set tags then [createManifestBundle (resolvedModules mods tags)] else [])"
proof -
  have "set (map tagName (resolvedModules mods tags)) = set (matchingTags mods tags)"
    by (simp only: tagName_resolvedModules)
  then have iff: "tag \<in> tagName ` set (resolvedModules mods tags) \<longleftrightarrow> tag \<in> set tags"
    using assms by (auto simp: matchingTags_def)
  show ?thesis
  proof (cases "tag \<in> set tags")
    case True
    with iff have "resolvedModules mods tags \<noteq> []" by auto
    with True iff show ?thesis
      by (simp add: emitResolved_def holdsTag_def createManifestBundle_def)
  next
    case False
    with iff show ?thesis
      by (simp add: emitResolved_def holdsTag_def createManifestBundle_def)
  qed
qed

lemma bundles_holding_tag:
  assumes "findModule mods tag \<noteq> None"
  shows "length (filter (holdsTag tag) (fst (getManifestBundles mods bs ds)))
           = length (filter (declares tag) bs)"
proof -
  have "length (filter (holdsTag tag)
          (concat (map (\<lambda>b. emitResolved (resolvedModules mods (declaredTags b))) bs)))
        = length (filter (declares tag) bs)"
  proof (induction bs)
    case Nil show ?case by simp
  next
    case (Cons b bs)
    then show ?case
      by (simp add: holdsTag_emitResolved [OF assms] declares_def)
  qed
  then show ?thesis by (simp add: getManifestBundles_eq)
qed

text \<open>
  Claim C6, as amended. The preliminary bundles are, in the order of the declarations, the
  declarations that resolve to at least one module, each holding the modules found for its
  matching tags: position by position the module that \<open>find\<close> returns for the tag, in
  declaration order, one module for each time a matching tag is declared. Taken together
  the bundles hold as many modules as matching tags are declared. A matching tag appears
  in exactly as many preliminary bundles as there are declarations that declare it: in
  exactly one when a single declaration declares it, and in two when two do.
\<close>

theorem getManifestBundles_resolution:
  "map moduleFiles (fst (getManifestBundles mods bs ds))
     = filter (\<lambda>ms. ms \<noteq> []) (map (\<lambda>b. resolvedModules mods (declaredTags b)) bs)
   \<and> list_all2 (\<lambda>m tag. findModule mods tag = Some m)
        (resolvedModules mods tags) (matchingTags mods tags)
   \<and> map tagName (resolvedModules mods tags) = matchingTags mods tags
   \<and> set (resolvedModules mods tags) \<subseteq> set mods
   \<and> sum_list (map (\<lambda>b. length (moduleFiles b)) (fst (getManifestBundles mods bs ds)))
       = length (matchingTags mods (concat (map declaredTags bs)))
   \<and> (findModule mods tag \<noteq> None \<longrightarrow>
        length (filter (holdsTag tag) (fst (getManifestBundles mods bs ds)))
          = length (filter (declares tag) bs))"
proof (intro conjI impI)
  show "map moduleFiles (fst (getManifestBundles mods bs ds))
     = filter (\<lambda>ms. ms \<noteq> []) (map (\<lambda>b. resolvedModules mods (declaredTags b)) bs)"
    by (simp add: getManifestBundles_eq moduleFiles_emitResolved)
  show "list_all2 (\<lambda>m tag. findModule mods tag = Some m)
        (resolvedModules mods tags) (matchingTags mods tags)"
    by (rule list_all2_resolvedModules)
  show "map tagName (resolvedModules mods tags) = matchingTags mods tags"
    by (rule tagName_resolvedModules)
  show "set (resolvedModules mods tags) \<subseteq> set mods"
    using resolvedModules_mem by blast
  show "sum_list (map (\<lambda>b. length (moduleFiles b)) (fst (getManifestBundles mods bs ds)))
       = length (matchingTags mods (concat (map declaredTags bs)))"
    by (simp add: getManifestBundles_eq length_emitResolved_modules)
  show "length (filter (holdsTag tag) (fst (getManifestBundles mods bs ds)))
          = length (filter (declares tag) bs)"
    if "findModule mods tag \<noteq> None"
    using that by (rule bundles_holding_tag)
qed

theorem getManifestBundles_resolution_witness:
  "findModule [moduleOf ''a'' ScopedCss None, moduleOf ''b'' ShadowDom None] ''a''
     = Some (moduleOf ''a'' ScopedCss None)
   \<and> map moduleFiles (fst (getManifestBundles
        [moduleOf ''a'' ScopedCss None, moduleOf ''b'' ShadowDom None]
        [\<lparr>components = Some [''b'', ''x'', ''a'']\<rparr>, \<lparr>components = None\<rparr>,
         \<lparr>components = Some [''y'']\<rparr>] []))
     = [[moduleOf ''b'' ShadowDom None, moduleOf ''a'' ScopedCss None]]
   \<and> length (filter (holdsTag ''a'') (fst (getManifestBundles
        [moduleOf ''a'' ScopedCss None, moduleOf ''b'' ShadowDom None]
        [\<lparr>components = Some [''b'', ''x'', ''a'']\<rparr>, \<lparr>components = None\<rparr>,
         \<lparr>components = Some [''y'']\<rparr>] [])))
     = 1"
  using getManifestBundles_resolution
    [of "[moduleOf ''a'' ScopedCss None, moduleOf ''b'' ShadowDom None]"
        "[\<lparr>components = Some [''b'', ''x'', ''a'']\<rparr>, \<lparr>components = None\<rparr>,
          \<lparr>components = Some [''y'']\<rparr>]"
        "[]" "[]" "''a''"]
  by (simp add: declaredTags_def declares_def findModule_def moduleOf_def)

text \<open>
  The claim as it was stated, that every matching tag appears in exactly one preliminary
  bundle, fails when two declarations declare the same tag: the tag \<open>a\<close> below is in both
  preliminary bundles.
\<close>

theorem getManifestBundles_two_bundles_counterexample:
  "map (\<lambda>b. map tagName (moduleFiles b))
     (fst (getManifestBundles
        [moduleOf ''a'' ScopedCss None, moduleOf ''b'' ScopedCss None]
        [\<lparr>components = Some [''a'']\<rparr>, \<lparr>components = Some [''b'', ''a'']\<rparr>] []))
   = [[''a''], [''b'', ''a'']]
   \<and> length (filter (holdsTag ''a'')
       (fst (getManifestBundles
          [moduleOf ''a'' ScopedCss None, moduleOf ''b'' ScopedCss None]
          [\<lparr>components = Some [''a'']\<rparr>, \<lparr>components = Some [''b'', ''a'']\<rparr>] [])))
     = 2"
  by (simp add: getManifestBundles_def hasComponents_def resolveBundle_def resolveTag_def
      createManifestBundle_def Let_def moduleOf_def tagName_def holdsTag_def)

lemma missingTags_all:
  "resolvedModules mods tags = [] \<Longrightarrow> missingTags mods tags = tags"
  by (induction tags) (auto simp: missingTags_def split: option.splits)

text \<open>
  Claim C7, as amended. The diagnostics after the call are those before it followed by one
  diagnostic for each declared tag without a matching module, in the order of the
  declarations and of the tags in them: no tag or declaration after a missing tag is
  skipped. Each of these diagnostics is of level error and its message names the tag, so
  that two tags with the same message are the same tag; the message says nothing of the
  declaration. A declaration without tags leaves the bundles and the diagnostics as they
  are; a declaration that resolves to no module adds no bundle and nothing but the
  diagnostics of its tags.
\<close>

theorem getManifestBundles_diagnostics:
  "snd (getManifestBundles mods bs ds)
     = ds @ map missingTagDiagnostic (missingTags mods (concat (map declaredTags bs)))
   \<and> level (missingTagDiagnostic tag) = Err
   \<and> messageText (missingTagDiagnostic tag) = missingTagMessage tag
   \<and> (missingTagMessage tag = missingTagMessage tag' \<longrightarrow> tag = tag')
   \<and> (\<forall>t\<in>set (missingTags mods tags). \<forall>m\<in>set mods. tagNameMeta (cmpMeta m) \<noteq> t)
   \<and> (declaredTags b = [] \<longrightarrow> getManifestBundles mods [b] ds = ([], ds))
   \<and> (resolvedModules mods (declaredTags b) = [] \<longrightarrow>
        getManifestBundles mods [b] ds = ([], ds @ map missingTagDiagnostic (declaredTags b)))"
proof (intro conjI impI ballI)
  show "snd (getManifestBundles mods bs ds)
     = ds @ map missingTagDiagnostic (missingTags mods (concat (map declaredTags bs)))"
    by (simp add: getManifestBundles_eq)
  show "level (missingTagDiagnostic tag) = Err" by (simp add: missingTagDiagnostic_def)
  show "messageText (missingTagDiagnostic tag) = missingTagMessage tag"
    by (simp add: missingTagDiagnostic_def)
  show "tag = tag'" if "missingTagMessage tag = missingTagMessage tag'"
    using that by (simp add: missingTagMessage_inject)
  show "tagNameMeta (cmpMeta m) \<noteq> t" if "t \<in> set (missingTags mods tags)" "m \<in> set mods" for t m
    using that by (auto simp: missingTags_def findModule_None_iff)
  show "getManifestBundles mods [b] ds = ([], ds)" if "declaredTags b = []"
    using that by (simp add: getManifestBundles_eq emitResolved_def missingTags_def)
  show "getManifestBundles mods [b] ds = ([], ds @ map missingTagDiagnostic (declaredTags b))"
    if "resolvedModules mods (declaredTags b) = []"
    using that by (simp add: getManifestBundles_eq emitResolved_def missingTags_all)
qed

theorem getManifestBundles_diagnostics_witness:
  "resolvedModules [moduleOf ''a'' ScopedCss None]
      (declaredTags \<lparr>components = Some [''x'', ''y'']\<rparr>) = []
   \<and> getManifestBundles [moduleOf ''a'' ScopedCss None]
        [\<lparr>components = Some [''x'', ''y'']\<rparr>] []
      = ([], [\<lparr>level = Err, messageText = missingTagMessage ''x''\<rparr>,
              \<lparr>level = Err, messageText = missingTagMessage ''y''\<rparr>])
   \<and> declaredTags \<lparr>components = Some []\<rparr> = []
   \<and> getManifestBundles [moduleOf ''a'' ScopedCss None] [\<lparr>components = Some []\<rparr>] []
      = ([], [])
   \<and> getManifestBundles [moduleOf ''a'' ScopedCss None] [\<lparr>components = None\<rparr>] []
      = ([], [])"
  using
    getManifestBundles_diagnostics
      [of "[moduleOf ''a'' ScopedCss None]" "[]" "[]" "''x''" "''x''" "[]"
          "\<lparr>components = Some [''x'', ''y'']\<rparr>"]
    getManifestBundles_diagnostics
      [of "[moduleOf ''a'' ScopedCss None]" "[]" "[]" "''x''" "''x''" "[]"
          "\<lparr>components = Some []\<rparr>"]
    getManifestBundles_diagnostics
      [of "[moduleOf ''a'' ScopedCss None]" "[]" "[]" "''x''" "''x''" "[]"
          "\<lparr>components = None\<rparr>"]
  by (simp add: declaredTags_def findModule_def moduleOf_def missingTagDiagnostic_def)

text \<open>
  The claim as it was stated, that the diagnostic identifies the declaring bundle as well,
  fails: the tag \<open>x\<close> is missing from two declarations below, and the diagnostic of the first
  declaration (at index 0) is the diagnostic of the second (at index 2).
\<close>

theorem getManifestBundles_bundle_counterexample:
  "snd (getManifestBundles []
          [\<lparr>components = Some [''x'']\<rparr>, \<lparr>components = Some [''y'', ''x'']\<rparr>] [])
     = [\<lparr>level = Err, messageText = missingTagMessage ''x''\<rparr>,
        \<lparr>level = Err, messageText = missingTagMessage ''y''\<rparr>,
        \<lparr>level = Err, messageText = missingTagMessage ''x''\<rparr>]
   \<and> snd (getManifestBundles []
          [\<lparr>components = Some [''x'']\<rparr>, \<lparr>components = Some [''y'', ''x'']\<rparr>] []) ! 0
     = snd (getManifestBundles []
          [\<lparr>components = Some [''x'']\<rparr>, \<lparr>components = Some [''y'', ''x'']\<rparr>] []) ! 2"
  by (simp add: getManifestBundles_def hasComponents_def resolveBundle_def resolveTag_def
      createManifestBundle_def Let_def buildError_def)

lemma getManifestBundles_nonempty:
  "b \<in> set (fst (getManifestBundles mods bs ds)) \<Longrightarrow> moduleFiles b \<noteq> []"
  by (auto simp: getManifestBundles_eq emitResolved_def createManifestBundle_def split: if_splits)

lemma validateBundleModules_nonempty:
  assumes "b \<in> set (validateBundleModules xs)"
  shows "moduleFiles b \<noteq> []"
proof -
  from assms obtain b0 where "b \<in> set (validateManifestBundle [] b0)"
    unfolding validateBundleModules_concat by auto
  then have "consistentBundle b" by (rule validateManifestBundle_consistent)
  then show ?thesis by (simp add: consistentBundle_def)
qed

text \<open>
  Claim C10. Every preliminary bundle that \<open>getManifestBundles\<close> returns has a module, so
  the branch of \<open>validateManifestBundle\<close> for a bundle without modules is not taken on
  them; every bundle that \<open>validateBundleModules\<close> emits has a module, whatever it was
  given; and \<open>sortBundles\<close> returns on the validated bundles: its comparator never reads
  \<open>moduleFiles[0]\<close> of a bundle without modules there.
\<close>

theorem pipeline_bundles_nonempty:
  "(\<forall>b\<in>set (fst (getManifestBundles mods bs ds)). moduleFiles b \<noteq> [])
   \<and> (\<forall>b\<in>set (validateBundleModules xs). moduleFiles b \<noteq> [])
   \<and> (\<exists>r. sortBundles (validateBundleModules xs) = Inr r)
   \<and> (\<exists>r. sortBundles (validateBundleModules (fst (getManifestBundles mods bs ds))) = Inr r)"
proof -
  have v: "\<forall>b\<in>set (validateBundleModules ys). moduleFiles b \<noteq> []" for ys
    using validateBundleModules_nonempty by blast
  have s: "\<exists>r. sortBundles (validateBundleModules ys) = Inr r" for ys
    using sortBundles_total [OF v] by blast
  show ?thesis using getManifestBundles_nonempty v s by blast
qed

theorem pipeline_bundles_nonempty_witness:
  "createManifestBundle [moduleOf ''b'' ShadowDom None, moduleOf ''a'' ScopedCss None]
     \<in> set (fst (getManifestBundles
          [moduleOf ''a'' ScopedCss None, moduleOf ''b'' ShadowDom None]
          [\<lparr>components = Some [''b'', ''x'', ''a'']\<rparr>, \<lparr>components = Some [''y'']\<rparr>] []))
   \<and> moduleFiles
       (createManifestBundle [moduleOf ''b'' ShadowDom None, moduleOf ''a'' ScopedCss None])
     \<noteq> []
   \<and> createManifestBundle [moduleOf ''b'' ShadowDom None, moduleOf ''a'' ScopedCss None]
     \<in> set (validateBundleModules
          [createManifestBundle [],
           createManifestBundle [moduleOf ''b'' ShadowDom None, moduleOf ''a'' ScopedCss None]])"
proof -
  have mem: "createManifestBundle [moduleOf ''b'' ShadowDom None, moduleOf ''a'' ScopedCss None]
     \<in> set (fst (getManifestBundles
          [moduleOf ''a'' ScopedCss None, moduleOf ''b'' ShadowDom None]
          [\<lparr>components = Some [''b'', ''x'', ''a'']\<rparr>, \<lparr>components = Some [''y'']\<rparr>] []))"
    by (simp add: getManifestBundles_def hasComponents_def resolveBundle_def resolveTag_def
        createManifestBundle_def Let_def moduleOf_def)
  have val: "createManifestBundle [moduleOf ''b'' ShadowDom None, moduleOf ''a'' ScopedCss None]
     \<in> set (validateBundleModules
          [createManifestBundle [],
           createManifestBundle [moduleOf ''b'' ShadowDom None, moduleOf ''a'' ScopedCss None]])"
    by (simp add: validateBundleModules_def validateManifestBundle_def Let_def
        findPrimaryEncapsulation_def compareLength_def isPlainCss_def isScopedCss_def
        isShadowCss_def pickOut_def pushIf_def createManifestBundle_def moduleOf_def)
  from pipeline_bundles_nonempty
    [of "[moduleOf ''a'' ScopedCss None, moduleOf ''b'' ShadowDom None]"
        "[\<lparr>components = Some [''b'', ''x'', ''a'']\<rparr>, \<lparr>components = Some [''y'']\<rparr>]" "[]"
        "[createManifestBundle [],
          createManifestBundle [moduleOf ''b'' ShadowDom None, moduleOf ''a'' ScopedCss None]]"]
    mem val
  show ?thesis by blast
qed

text \<open>
  Scenario A of the spec, through resolution, validation and sorting: the three modes tie,
  the plain mode is primary, the module without styles stays in the original bundle, and
  the sorted bundles are those of \<open>a-btn\<close>, \<open>a-card\<close> and \<open>a-icon\<close>.
\<close>

lemma scenario_A:
  "sortBundles (validateBundleModules (fst (getManifestBundles
      [moduleOf ''a-btn'' ShadowDom (Some []), moduleOf ''a-card'' ScopedCss (Some []),
       moduleOf ''a-icon'' NoEncapsulation None]
      [\<lparr>components = Some [''a-btn'', ''a-card'', ''a-icon'']\<rparr>] [])))
   = Inr [createManifestBundle [moduleOf ''a-btn'' ShadowDom (Some [])],
          createManifestBundle [moduleOf ''a-card'' ScopedCss (Some [])],
          createManifestBundle [moduleOf ''a-icon'' NoEncapsulation None]]"
  by (simp add: getManifestBundles_def hasComponents_def resolveBundle_def resolveTag_def
      createManifestBundle_def Let_def moduleOf_def validateBundleModules_def
      validateManifestBundle_def findPrimaryEncapsulation_def compareLength_def isPlainCss_def
      isScopedCss_def isShadowCss_def pickOut_def pushIf_def sortBundles_def sortModuleFiles_def
      compareFirstTagName_def compareTagName_def)

subsection \<open>The orchestrator\<close>

lemma hasError_iff: "hasError ds \<longleftrightarrow> (\<exists>d\<in>set ds. level d = Err)"
  by (simp add: hasError_def list_ex_iff)

lemma bundle_fn_caught:
  assumes "\<not> hasError (diagnostics ctx)" "fst (bundleSteps col ctx) = Some e"
  shows "snd (bundle_fn col ctx) =
           (snd (bundleSteps col ctx))\<lparr>diagnostics :=
              diagnostics (snd (bundleSteps col ctx)) @ [\<lparr>level = Err, messageText = exnText e\<rparr>]\<rparr>"
  using assms by (cases "bundleSteps col ctx") (simp add: bundle_fn_def catchError_def)

lemma bundle_fn_no_exn: "fst (bundle_fn col ctx) = None"
  by (cases "bundleSteps col ctx"; cases "fst (bundleSteps col ctx)")
     (auto simp: bundle_fn_def)

text \<open>
  Claim C9. When the diagnostics hold an error at entry, \<open>bundle\<close> returns at once with
  the build context as it was: no bundle is produced. No exception leaves \<open>bundle\<close>. When
  the \<open>try\<close> block ends with an exception, the build context is the one the block left,
  with one error diagnostic for the exception added at the end of its diagnostics.
\<close>

theorem bundle_fn_errors:
  "(hasError (diagnostics ctx) \<longrightarrow> bundle_fn col ctx = (None, ctx))
   \<and> (hasError (diagnostics ctx) \<longleftrightarrow> (\<exists>d\<in>set (diagnostics ctx). level d = Err))
   \<and> fst (bundle_fn col ctx) = None
   \<and> (\<not> hasError (diagnostics ctx) \<and> fst (bundleSteps col ctx) = Some e \<longrightarrow>
        snd (bundle_fn col ctx) =
          (snd (bundleSteps col ctx))\<lparr>diagnostics :=
             diagnostics (snd (bundleSteps col ctx)) @ [\<lparr>level = Err, messageText = exnText e\<rparr>]\<rparr>
        \<and> hasError (diagnostics (snd (bundle_fn col ctx))))"
proof (intro conjI impI)
  show "bundle_fn col ctx = (None, ctx)" if "hasError (diagnostics ctx)"
    using that by (simp add: bundle_fn_def)
  show "hasError (diagnostics ctx) \<longleftrightarrow> (\<exists>d\<in>set (diagnostics ctx). level d = Err)"
    by (rule hasError_iff)
  show "fst (bundle_fn col ctx) = None" by (rule bundle_fn_no_exn)
next
  assume a: "\<not> hasError (diagnostics ctx) \<and> fst (bundleSteps col ctx) = Some e"
  then show c: "snd (bundle_fn col ctx) =
          (snd (bundleSteps col ctx))\<lparr>diagnostics :=
             diagnostics (snd (bundleSteps col ctx)) @ [\<lparr>level = Err, messageText = exnText e\<rparr>]\<rparr>"
    using bundle_fn_caught by blast
  show "hasError (diagnostics (snd (bundle_fn col ctx)))"
    unfolding c by (simp add: hasError_iff)
qed

theorem bundle_fn_errors_witness:
  "bundle_fn failingCollaborators (exampleContext [\<lparr>level = Err, messageText = ''prior''\<rparr>])
     = (None, exampleContext [\<lparr>level = Err, messageText = ''prior''\<rparr>])
   \<and> bundle_fn failingCollaborators (exampleContext [])
     = (None,
        \<lparr>diagnostics = [\<lparr>level = Err, messageText = ''boom''\<rparr>],
         manifest = \<lparr>modulesFiles = [moduleOf ''a'' ScopedCss None],
                     bundles = [\<lparr>components = Some [''a'']\<rparr>]\<rparr>,
         manifestBundles = [createManifestBundle [moduleOf ''a'' ScopedCss None]]\<rparr>)"
proof -
  have steps: "bundleSteps failingCollaborators (exampleContext [])
     = (Some (Thrown ''boom''),
        \<lparr>diagnostics = [],
         manifest = \<lparr>modulesFiles = [moduleOf ''a'' ScopedCss None],
                     bundles = [\<lparr>components = Some [''a'']\<rparr>]\<rparr>,
         manifestBundles = [createManifestBundle [moduleOf ''a'' ScopedCss None]]\<rparr>)"
    by (simp add: bundleSteps_def failingCollaborators_def exampleContext_def Let_def
      getManifestBundles_def hasComponents_def resolveBundle_def resolveTag_def
      createManifestBundle_def moduleOf_def validateBundleModules_def validateManifestBundle_def
      sortBundles_def sortModuleFiles_def)
  have e1: "hasError (diagnostics (exampleContext [\<lparr>level = Err, messageText = ''prior''\<rparr>]))"
    by (simp add: hasError_def exampleContext_def)
  have e2: "\<not> hasError (diagnostics (exampleContext []))"
    by (simp add: hasError_def exampleContext_def)
  from bundle_fn_errors [of "exampleContext [\<lparr>level = Err, messageText = ''prior''\<rparr>]" failingCollaborators]
    e1
  have 1: "bundle_fn failingCollaborators (exampleContext [\<lparr>level = Err, messageText = ''prior''\<rparr>])
     = (None, exampleContext [\<lparr>level = Err, messageText = ''prior''\<rparr>])"
    by blast
  from bundle_fn_errors [of "exampleContext []" failingCollaborators "Thrown ''boom''"] e2 steps
  have "fst (bundle_fn failingCollaborators (exampleContext [])) = None"
    and "snd (bundle_fn failingCollaborators (exampleContext [])) =
        \<lparr>diagnostics = [\<lparr>level = Err, messageText = ''boom''\<rparr>],
         manifest = \<lparr>modulesFiles = [moduleOf ''a'' ScopedCss None],
                     bundles = [\<lparr>components = Some [''a'']\<rparr>]\<rparr>,
         manifestBundles = [createManifestBundle [moduleOf ''a'' ScopedCss None]]\<rparr>"
    by (simp_all add: exnText_def)
  then have 2: "bundle_fn failingCollaborators (exampleContext [])
     = (None,
        \<lparr>diagnostics = [\<lparr>level = Err, messageText = ''boom''\<rparr>],
         manifest = \<lparr>modulesFiles = [moduleOf ''a'' ScopedCss None],
                     bundles = [\<lparr>components = Some [''a'']\<rparr>]\<rparr>,
         manifestBundles = [createManifestBundle [moduleOf ''a'' ScopedCss None]]\<rparr>)"
    by (metis prod.collapse)
  from 1 2 show ?thesis by simp
qed

end
